theory Spec2Isabelle
  imports Main
begin

section \<open>Bottl.py: age and calendar toolkit\<close>

text \<open>
  A shallow embedding of the date arithmetic, the parsers, the current-date resolver and
  the Jalali wrappers of \<^verbatim>\<open>src/Bottl.py\<close>. Python's unbounded integers are \<^typ>\<open>int\<close>;
  every \<^verbatim>\<open>raise\<close> is a value \<open>Inl e\<close> of a result type \<open>error + 'a\<close>.
\<close>

subsection \<open>Errors\<close>

text \<open>
  One constructor for each place an exception can come from:
  \<^item> \<open>InvalidFormat\<close>: the \<^verbatim>\<open>ValueError("Use Gregorian YYYY-MM-DD ...")\<close> and
    \<^verbatim>\<open>ValueError("Use Jalali YYYY-MM-DD ...")\<close> raised by the two parsers;
  \<^item> \<open>InvalidCalendarDate\<close>: the \<^verbatim>\<open>ValueError\<close> of the constructor \<^verbatim>\<open>datetime.date(y, m, d)\<close>,
    and what a call into a Jalali backend raises;
  \<^item> \<open>FutureBirthdate\<close>: \<^verbatim>\<open>ValueError("Birthdate cannot be in the future.")\<close>;
  \<^item> \<open>CapabilityUnavailable\<close>: \<^verbatim>\<open>RuntimeError("Jalali backend not available. ...")\<close>;
  \<^item> \<open>IllegalMonthError\<close>: raised by \<^verbatim>\<open>calendar.monthrange\<close> for a month outside 1..12;
  \<^item> \<open>InvalidLiteral\<close>: the \<^verbatim>\<open>ValueError\<close> of \<^verbatim>\<open>int(...)\<close> on a non-numeric string, or of
    unpacking a sequence that has not exactly three elements.
\<close>

datatype error =
    InvalidFormat
  | InvalidCalendarDate
  | FutureBirthdate
  | CapabilityUnavailable
  | IllegalMonthError
  | InvalidLiteral

subsection \<open>\<^verbatim>\<open>datetime.date\<close> and \<^verbatim>\<open>calendar.monthrange\<close>\<close>

record date =
  year :: int
  month :: int
  day :: int

definition MINYEAR :: int where
  "MINYEAR = 1"

definition MAXYEAR :: int where
  "MAXYEAR = 9999"

definition isleap :: "int \<Rightarrow> bool" where
  \<comment> \<open>\<^verbatim>\<open>year % 4 == 0 and (year % 100 != 0 or year % 400 == 0)\<close>; Python's \<^verbatim>\<open>%\<close> is the floored
      remainder, as \<open>mod\<close> on \<^typ>\<open>int\<close>.\<close>
  "isleap y = (y mod 4 = 0 \<and> (y mod 100 \<noteq> 0 \<or> y mod 400 = 0))"

definition mdays :: "int \<Rightarrow> int" where
  \<comment> \<open>\<^verbatim>\<open>calendar.mdays = [0, 31, 28, 31, 30, 31, 30, 31, 31, 30, 31, 30, 31]\<close>, read at 1..12 only.\<close>
  "mdays m = [0, 31, 28, 31, 30, 31, 30, 31, 31, 30, 31, 30, 31] ! nat m"

definition monthrange :: "int \<Rightarrow> int \<Rightarrow> error + int" where
  \<comment> \<open>The second component of \<^verbatim>\<open>calendar.monthrange(year, month)\<close>, the number of days of the
      month; the first (the weekday of the first day) is never read by the program.\<close>
  "monthrange y m =
     (if \<not> (1 \<le> m \<and> m \<le> 12) then Inl IllegalMonthError
      else Inr (mdays m + (if m = 2 \<and> isleap y then 1 else 0)))"

definition days_in_month :: "int \<Rightarrow> int \<Rightarrow> int" where
  \<comment> \<open>\<^verbatim>\<open>datetime._days_in_month\<close>, called with \<open>1 \<le> m \<le> 12\<close> only.\<close>
  "days_in_month y m = (if m = 2 \<and> isleap y then 29 else mdays m)"

definition mk_date :: "int \<Rightarrow> int \<Rightarrow> int \<Rightarrow> error + date" where
  \<comment> \<open>The constructor \<^verbatim>\<open>date(y, m, d)\<close>, with the range checks of \<^verbatim>\<open>_check_date_fields\<close>.\<close>
  "mk_date y m d =
     (if \<not> (MINYEAR \<le> y \<and> y \<le> MAXYEAR) then Inl InvalidCalendarDate
      else if \<not> (1 \<le> m \<and> m \<le> 12) then Inl InvalidCalendarDate
      else if \<not> (1 \<le> d \<and> d \<le> days_in_month y m) then Inl InvalidCalendarDate
      else Inr \<lparr>year = y, month = m, day = d\<rparr>)"

definition valid_date :: "date \<Rightarrow> bool" where
  \<comment> \<open>The values a \<^verbatim>\<open>date\<close> object can hold: exactly those the constructor accepts.\<close>
  "valid_date g = (mk_date (year g) (month g) (day g) = Inr g)"

definition date_lt :: "date \<Rightarrow> date \<Rightarrow> bool" where
  \<comment> \<open>\<^verbatim>\<open>a < b\<close> on dates: the comparison of the tuples \<^verbatim>\<open>(year, month, day)\<close>.\<close>
  "date_lt a b =
     (year a < year b \<or> (year a = year b \<and>
        (month a < month b \<or> (month a = month b \<and> day a < day b))))"

definition date_le :: "date \<Rightarrow> date \<Rightarrow> bool" where
  "date_le a b =
     (year a < year b \<or> (year a = year b \<and>
        (month a < month b \<or> (month a = month b \<and> day a \<le> day b))))"

definition days_before_year :: "int \<Rightarrow> int" where
  \<comment> \<open>\<^verbatim>\<open>datetime._days_before_year\<close>; \<^verbatim>\<open>//\<close> is floored division, as \<open>div\<close> on \<^typ>\<open>int\<close>.\<close>
  "days_before_year y = (let y1 = y - 1 in y1 * 365 + y1 div 4 - y1 div 100 + y1 div 400)"

definition DAYS_BEFORE_MONTH :: "int \<Rightarrow> int" where
  "DAYS_BEFORE_MONTH m =
     [0, 0, 31, 59, 90, 120, 151, 181, 212, 243, 273, 304, 334] ! nat m"

definition days_before_month :: "int \<Rightarrow> int \<Rightarrow> int" where
  "days_before_month y m = DAYS_BEFORE_MONTH m + (if m > 2 \<and> isleap y then 1 else 0)"

definition toordinal :: "date \<Rightarrow> int" where
  \<comment> \<open>\<^verbatim>\<open>date.toordinal()\<close>: day 1 is 0001-01-01.\<close>
  "toordinal g = days_before_year (year g) + days_before_month (year g) (month g) + day g"

definition date_diff_days :: "date \<Rightarrow> date \<Rightarrow> int" where
  \<comment> \<open>\<^verbatim>\<open>(a - b).days\<close>.\<close>
  "date_diff_days a b = toordinal a - toordinal b"

subsection \<open>Age arithmetic\<close>

definition borrow_days :: "date \<Rightarrow> int \<times> int \<times> int \<Rightarrow> error + int \<times> int \<times> int" where
  \<comment> \<open>The block \<^verbatim>\<open>if d < 0: ...\<close> of \<^verbatim>\<open>age_ymd\<close>.\<close>
  "borrow_days today t =
     (case t of (y, m, d) \<Rightarrow>
        if d < 0 then
          (let (prev_month, prev_year) =
                 (if month today = 1 then (12, year today - 1)
                  else (month today - 1, year today))
           in case monthrange prev_year prev_month of
                Inl e \<Rightarrow> Inl e
              | Inr days_in_prev_month \<Rightarrow> Inr (y, m - 1, d + days_in_prev_month))
        else Inr (y, m, d))"

definition borrow_months :: "int \<times> int \<times> int \<Rightarrow> int \<times> int \<times> int" where
  \<comment> \<open>The block \<^verbatim>\<open>if m < 0: ...\<close> of \<^verbatim>\<open>age_ymd\<close>.\<close>
  "borrow_months t = (case t of (y, m, d) \<Rightarrow> if m < 0 then (y - 1, m + 12, d) else (y, m, d))"

definition age_ymd :: "date \<Rightarrow> date \<Rightarrow> error + int \<times> int \<times> int" where
  "age_ymd born today =
     (if date_lt today born then Inl FutureBirthdate
      else
        (case borrow_days today
                (year today - year born, month today - month born, day today - day born) of
           Inl e \<Rightarrow> Inl e
         | Inr t \<Rightarrow> Inr (borrow_months t)))"

subsection \<open>Next birthday\<close>

definition safe_date :: "int \<Rightarrow> int \<Rightarrow> int \<Rightarrow> error + date" where
  \<comment> \<open>The local function \<^verbatim>\<open>_safe_date\<close> of \<^verbatim>\<open>next_birthday_after\<close>.\<close>
  "safe_date y m d =
     (case monthrange y m of
        Inl e \<Rightarrow> Inl e
      | Inr last_day \<Rightarrow> mk_date y m (min d last_day))"

definition next_birthday_after :: "date \<Rightarrow> date \<Rightarrow> error + date" where
  "next_birthday_after born today =
     (case safe_date (year today) (month born) (day born) of
        Inl e \<Rightarrow> Inl e
      | Inr candidate \<Rightarrow>
          if date_le candidate today
          then safe_date (year today + 1) (month born) (day born)
          else Inr candidate)"

definition days_until_next_birthday :: "date \<Rightarrow> date \<Rightarrow> error + int" where
  "days_until_next_birthday born today =
     (case next_birthday_after born today of
        Inl e \<Rightarrow> Inl e
      | Inr nb \<Rightarrow> Inr (date_diff_days nb today))"

definition observance :: "date \<Rightarrow> int \<Rightarrow> date" where
  \<comment> \<open>What \<^verbatim>\<open>_safe_date(y, born.month, born.day)\<close> holds when it returns: the birthday's month
      and day in year \<open>y\<close>, the day clamped to the last day of that month.\<close>
  "observance born y =
     \<lparr>year = y, month = month born, day = min (day born) (days_in_month y (month born))\<rparr>"

subsection \<open>Strings, digits and the date pattern\<close>

text \<open>
  A Python \<^verbatim>\<open>str\<close> is the list of its code points. The code points written out below:
  48..57 are \<^verbatim>\<open>0\<close>..\<^verbatim>\<open>9\<close>, 45 is \<^verbatim>\<open>-\<close>, 46 is \<^verbatim>\<open>.\<close>, 47 is \<^verbatim>\<open>/\<close>, 1632..1641 (U+0660..U+0669) are
  the Arabic-Indic digits and 1776..1785 (U+06F0..U+06F9) the Persian digits.
\<close>

type_synonym str = "nat list"

definition P2L_DIGITS :: "(nat \<times> nat) list" where
  \<comment> \<open>\<^verbatim>\<open>str.maketrans\<close> of the twenty Persian and Arabic-Indic digits and
      \<^verbatim>\<open>"01234567890123456789"\<close>.\<close>
  "P2L_DIGITS =
     zip [1776, 1777, 1778, 1779, 1780, 1781, 1782, 1783, 1784, 1785,
          1632, 1633, 1634, 1635, 1636, 1637, 1638, 1639, 1640, 1641]
         [48, 49, 50, 51, 52, 53, 54, 55, 56, 57, 48, 49, 50, 51, 52, 53, 54, 55, 56, 57]"

definition translate :: "(nat \<times> nat) list \<Rightarrow> nat \<Rightarrow> nat" where
  \<comment> \<open>One character of \<^verbatim>\<open>str.translate\<close>: a code point that is no key of the table stays.\<close>
  "translate table c = (case map_of table c of Some c' \<Rightarrow> c' | None \<Rightarrow> c)"

definition normalize_digits :: "str \<Rightarrow> str" where
  "normalize_digits s = map (translate P2L_DIGITS) s"

definition isspace :: "nat \<Rightarrow> bool" where
  \<comment> \<open>The code points \<^verbatim>\<open>str.strip()\<close> removes: U+0009..U+000D, U+001C..U+0020, U+0085, U+00A0,
      U+1680, U+2000..U+200A, U+2028, U+2029, U+202F, U+205F, U+3000.\<close>
  "isspace c =
     ((9 \<le> c \<and> c \<le> 13) \<or> (28 \<le> c \<and> c \<le> 32) \<or> c = 133 \<or> c = 160 \<or> c = 5760 \<or>
      (8192 \<le> c \<and> c \<le> 8202) \<or> c = 8232 \<or> c = 8233 \<or> c = 8239 \<or> c = 8287 \<or> c = 12288)"

definition strip :: "str \<Rightarrow> str" where
  "strip s = rev (dropWhile isspace (rev (dropWhile isspace s)))"

definition normalize_sep :: "str \<Rightarrow> str" where
  \<comment> \<open>\<^verbatim>\<open>_normalize_sep\<close>: \<^verbatim>\<open>re.sub(r"[\/\.]", "-", s.strip())\<close>.\<close>
  "normalize_sep s = map (\<lambda>c. if c = 47 \<or> c = 46 then 45 else c) (strip s)"

definition digit_value :: "(nat \<Rightarrow> nat option) \<Rightarrow> nat \<Rightarrow> nat option" where
  \<comment> \<open>The value of a decimal digit (Unicode category Nd): what \<^verbatim>\<open>\d\<close> of a \<^verbatim>\<open>str\<close> pattern
      matches and what \<^verbatim>\<open>int()\<close> reads. The ASCII, Arabic-Indic and Persian digits are written
      out; \<open>nd\<close> is the rest of the table of the running interpreter, asked for other
      code points beyond ASCII only.\<close>
  "digit_value nd c =
     (if 48 \<le> c \<and> c \<le> 57 then Some (c - 48)
      else if c < 128 then None
      else if 1632 \<le> c \<and> c \<le> 1641 then Some (c - 1632)
      else if 1776 \<le> c \<and> c \<le> 1785 then Some (c - 1776)
      else nd c)"

definition isdigit :: "(nat \<Rightarrow> nat option) \<Rightarrow> nat \<Rightarrow> bool" where
  "isdigit nd c = (case digit_value nd c of Some v \<Rightarrow> True | None \<Rightarrow> False)"

datatype item = Digits nat nat | Lit nat

fun fullmatch :: "(nat \<Rightarrow> nat option) \<Rightarrow> item list \<Rightarrow> str \<Rightarrow> bool" where
  \<comment> \<open>\<^verbatim>\<open>re.fullmatch\<close> for a sequence of literal characters and of \<^verbatim>\<open>\d{m,n}\<close>: some choice of
      the repetition counts makes the pattern cover the whole string.\<close>
  "fullmatch nd [] s = (s = [])"
| "fullmatch nd (Lit a # p) s = (case s of [] \<Rightarrow> False | c # cs \<Rightarrow> c = a \<and> fullmatch nd p cs)"
| "fullmatch nd (Digits m n # p) s =
     list_ex (\<lambda>k. k \<le> length s \<and> list_all (isdigit nd) (take k s) \<and> fullmatch nd p (drop k s))
       [m..<Suc n]"

definition date_pattern :: "item list" where
  \<comment> \<open>\<^verbatim>\<open>r"\d{4}-\d{1,2}-\d{1,2}"\<close>.\<close>
  "date_pattern = [Digits 4 4, Lit 45, Digits 1 2, Lit 45, Digits 1 2]"

fun split :: "nat \<Rightarrow> str \<Rightarrow> str list" where
  \<comment> \<open>\<^verbatim>\<open>s.split(sep)\<close> for a separator of one character.\<close>
  "split sep [] = [[]]"
| "split sep (c # cs) =
     (if c = sep then [] # split sep cs
      else (case split sep cs of p # ps \<Rightarrow> (c # p) # ps | [] \<Rightarrow> [[c]]))"

definition int_of_str :: "(nat \<Rightarrow> nat option) \<Rightarrow> str \<Rightarrow> error + int" where
  \<comment> \<open>\<^verbatim>\<open>int(s)\<close> on the strings the parsers pass to it, which are made of digits only: the
      number they write in base ten. (\<^verbatim>\<open>int\<close> also reads a sign, blanks and underscores;
      no such string gets here, see \<open>parts_of_match\<close> below.)\<close>
  "int_of_str nd s =
     (if s \<noteq> [] \<and> list_all (isdigit nd) s
      then Inr (foldl (\<lambda>a c. 10 * a + (case digit_value nd c of Some v \<Rightarrow> int v | None \<Rightarrow> 0)) 0 s)
      else Inl InvalidLiteral)"

fun map_int :: "(nat \<Rightarrow> nat option) \<Rightarrow> str list \<Rightarrow> error + int list" where
  \<comment> \<open>\<^verbatim>\<open>map(int, parts)\<close>, consumed from left to right; the first failure is raised.\<close>
  "map_int nd [] = Inr []"
| "map_int nd (p # ps) =
     (case int_of_str nd p of
        Inl e \<Rightarrow> Inl e
      | Inr v \<Rightarrow> (case map_int nd ps of Inl e \<Rightarrow> Inl e | Inr vs \<Rightarrow> Inr (v # vs)))"

definition unpack3 :: "int list \<Rightarrow> error + int \<times> int \<times> int" where
  \<comment> \<open>\<^verbatim>\<open>a, b, c = xs\<close>: a \<^verbatim>\<open>ValueError\<close> unless there are exactly three values.\<close>
  "unpack3 xs = (case xs of [a, b, c] \<Rightarrow> Inr (a, b, c) | _ \<Rightarrow> Inl InvalidLiteral)"

subsection \<open>The two parsers\<close>

definition parse_gregorian :: "(nat \<Rightarrow> nat option) \<Rightarrow> str \<Rightarrow> error + date" where
  "parse_gregorian nd s =
     (let s = normalize_sep s in
      if \<not> fullmatch nd date_pattern s then Inl InvalidFormat
      else
        (case map_int nd (split 45 s) of
           Inl e \<Rightarrow> Inl e
         | Inr xs \<Rightarrow>
             (case unpack3 xs of
                Inl e \<Rightarrow> Inl e
              | Inr (y, m, d) \<Rightarrow> mk_date y m d)))"

definition parse_jalali_tuple :: "(nat \<Rightarrow> nat option) \<Rightarrow> str \<Rightarrow> error + int list" where
  \<comment> \<open>The result is \<^verbatim>\<open>tuple(map(int, s.split("-")))\<close>, a tuple of as many integers as there
      are parts; the callers unpack it into three.\<close>
  "parse_jalali_tuple nd s =
     (let s = normalize_sep s in
      if \<not> fullmatch nd date_pattern s then Inl InvalidFormat
      else map_int nd (split 45 s))"

subsection \<open>The current date\<close>

text \<open>
  The two readings of the outside world are arguments: \<open>local_today\<close> is what
  \<^verbatim>\<open>date.today()\<close> gives (\<open>None\<close> when it raises), and \<open>attempts\<close> lists, in the order they
  are made, what each request of \<^verbatim>\<open>_fetch_online_date\<close> yields: \<open>Some d\<close> for a response
  that is read as the date \<open>d\<close>, \<open>None\<close> for a request that fails, is not \<^verbatim>\<open>ok\<close>, has no
  \<^verbatim>\<open>datetime\<close> field or whose field is no date.
\<close>

fun fetch_online_date :: "date option list \<Rightarrow> date option" where
  \<comment> \<open>\<^verbatim>\<open>_fetch_online_date\<close>: the first answer that is a date; every failure is swallowed and
      the next request is made; \<^verbatim>\<open>None\<close> when none is left.\<close>
  "fetch_online_date [] = None"
| "fetch_online_date (None # attempts) = fetch_online_date attempts"
| "fetch_online_date (Some d # attempts) = Some d"

definition plausible_year :: "int \<Rightarrow> bool" where
  "plausible_year y = (1970 \<le> y \<and> y \<le> 2100)"

definition get_current_date :: "date option \<Rightarrow> date option list \<Rightarrow> date" where
  \<comment> \<open>The result is the date alone, as the annotation \<^verbatim>\<open>-> date\<close> says. A \<^verbatim>\<open>date\<close> object is
      always true, so \<^verbatim>\<open>online and plausible_year(online.year)\<close> tests for \<^verbatim>\<open>None\<close> only.\<close>
  "get_current_date local_today attempts =
     (let final = (case fetch_online_date attempts of
                     Some online \<Rightarrow>
                       if plausible_year (year online) then online
                       else \<lparr>year = 2000, month = 1, day = 1\<rparr>
                   | None \<Rightarrow> \<lparr>year = 2000, month = 1, day = 1\<rparr>)
      in case local_today of
           Some d \<Rightarrow> if plausible_year (year d) then d else final
         | None \<Rightarrow> final)"

datatype branch = Local | Online | Fallback

definition branch_taken :: "date option \<Rightarrow> date option list \<Rightarrow> branch" where
  \<comment> \<open>Which of the three \<^verbatim>\<open>return\<close> statements of \<^verbatim>\<open>get_current_date\<close> is reached. The code
      computes no such value: this is the control flow of the function, written down to
      state what its result does and does not tell.\<close>
  "branch_taken local_today attempts =
     (let final = (case fetch_online_date attempts of
                     Some online \<Rightarrow> if plausible_year (year online) then Online else Fallback
                   | None \<Rightarrow> Fallback)
      in case local_today of
           Some d \<Rightarrow> if plausible_year (year d) then Local else final
         | None \<Rightarrow> final)"

definition trusted :: "date option \<Rightarrow> bool" where
  \<comment> \<open>A reading that exists and whose year is plausible.\<close>
  "trusted r = (case r of Some d \<Rightarrow> plausible_year (year d) | None \<Rightarrow> False)"

subsection \<open>The Jalali wrappers\<close>

text \<open>
  The conversion itself is done by one of two libraries that are imported if present,
  \<^verbatim>\<open>convertdate\<close> first and \<^verbatim>\<open>jdatetime\<close> second. Their functions are not part of the
  program, so a backend carries them as arguments; \<open>None\<close> stands for a call that raises,
  which reaches the caller as \<open>InvalidCalendarDate\<close>.
  \<^item> \<open>Convertdate from_gregorian to_gregorian\<close>: the two functions of
    \<^verbatim>\<open>convertdate.jalali\<close>, on three integers;
  \<^item> \<open>Jdatetime fromgregorian togregorian\<close>: \<^verbatim>\<open>jd.date.fromgregorian(date=gd)\<close> read as
    \<^verbatim>\<open>(j.year, j.month, j.day)\<close>, and \<^verbatim>\<open>jd.date(jy, jm, jd_).togregorian()\<close>;
  \<^item> \<open>NoBackend\<close>: neither import succeeded, \<^verbatim>\<open>JALALI_OK\<close> is false.
\<close>

type_synonym triple = "int \<times> int \<times> int"

datatype backend =
    NoBackend
  | Convertdate "int \<Rightarrow> int \<Rightarrow> int \<Rightarrow> triple option" "int \<Rightarrow> int \<Rightarrow> int \<Rightarrow> triple option"
  | Jdatetime "date \<Rightarrow> triple option" "int \<Rightarrow> int \<Rightarrow> int \<Rightarrow> date option"

definition JALALI_OK :: "backend \<Rightarrow> bool" where
  "JALALI_OK b = (case b of NoBackend \<Rightarrow> False | _ \<Rightarrow> True)"

definition raised :: "'a option \<Rightarrow> error + 'a" where
  \<comment> \<open>The result of a call into a backend.\<close>
  "raised r = (case r of None \<Rightarrow> Inl InvalidCalendarDate | Some v \<Rightarrow> Inr v)"

definition gdate_to_jtuple :: "backend \<Rightarrow> date \<Rightarrow> error + triple" where
  "gdate_to_jtuple b gd =
     (case b of
        NoBackend \<Rightarrow> Inl CapabilityUnavailable
      | Convertdate from_gregorian to_gregorian \<Rightarrow>
          raised (from_gregorian (year gd) (month gd) (day gd))
      | Jdatetime fromgregorian togregorian \<Rightarrow> raised (fromgregorian gd))"

definition jtuple_to_gdate :: "backend \<Rightarrow> int \<Rightarrow> int \<Rightarrow> int \<Rightarrow> error + date" where
  "jtuple_to_gdate b jy jm jd =
     (case b of
        NoBackend \<Rightarrow> Inl CapabilityUnavailable
      | Convertdate from_gregorian to_gregorian \<Rightarrow>
          (case raised (to_gregorian jy jm jd) of
             Inl e \<Rightarrow> Inl e
           | Inr (gy, gm, gd) \<Rightarrow> mk_date gy gm gd)
      | Jdatetime fromgregorian togregorian \<Rightarrow> raised (togregorian jy jm jd))"

definition jalali_month_days :: "int \<Rightarrow> int" where
  \<comment> \<open>Modelled from the spec: the Jalali calendar itself, of which the program has no line
      (it leaves it to the backend). The data model of the spec: months 1 to 6 have 31
      days, 7 to 11 have 30, month 12 has 29 days, or 30 in a leap year. The spec leaves the
      leap rule open, so month 12 gets its longer length here.\<close>
  "jalali_month_days jm =
     (if 1 \<le> jm \<and> jm \<le> 6 then 31 else if 7 \<le> jm \<and> jm \<le> 12 then 30 else 0)"

definition structurally_jalali :: "int \<Rightarrow> int \<Rightarrow> int \<Rightarrow> bool" where
  \<comment> \<open>Modelled from the spec: three numbers that can be a Jalali date under some leap rule.
      Numbers that fail this are a date of the Jalali calendar under no rule.\<close>
  "structurally_jalali jy jm jd = (1 \<le> jm \<and> jm \<le> 12 \<and> 1 \<le> jd \<and> jd \<le> jalali_month_days jm)"

text \<open>
  Two values for the arguments that stand for the libraries, to run the wrappers on: a
  table with no decimal digits beyond the three scripts written out, and a backend of the
  \<^verbatim>\<open>convertdate\<close> kind whose functions check nothing and answer every triple with numbers
  (the first day of a year 621 earlier, 21 March of a year 621 later).
\<close>

definition no_other_digits :: "nat \<Rightarrow> nat option" where
  "no_other_digits c = None"

definition unchecked_from_gregorian :: "int \<Rightarrow> int \<Rightarrow> int \<Rightarrow> triple option" where
  "unchecked_from_gregorian gy gm gd = Some (gy - 621, 1, 1)"

definition unchecked_to_gregorian :: "int \<Rightarrow> int \<Rightarrow> int \<Rightarrow> triple option" where
  "unchecked_to_gregorian jy jm jd = Some (jy + 621, 3, 21)"

definition unchecked_backend :: backend where
  "unchecked_backend = Convertdate unchecked_from_gregorian unchecked_to_gregorian"

subsection \<open>The four flows\<close>

text \<open>
  What lies outside the program when a flow runs: the rest of the interpreter's table of
  decimal digits, \<^verbatim>\<open>str.lower()\<close> for strings that are not plain ASCII, the backend that
  was imported, the local clock and the answers of the network.
\<close>

record world =
  decimal :: "nat \<Rightarrow> nat option"
  lower_other :: "str \<Rightarrow> str"
  jalali :: backend
  clock :: "date option"
  network :: "date option list"

definition lower :: "world \<Rightarrow> str \<Rightarrow> str" where
  \<comment> \<open>\<^verbatim>\<open>s.lower()\<close>: on ASCII, the letters \<^verbatim>\<open>A\<close>..\<^verbatim>\<open>Z\<close> (65..90) move to \<^verbatim>\<open>a\<close>..\<^verbatim>\<open>z\<close>.\<close>
  "lower w s =
     (if list_all (\<lambda>c. c < 128) s then map (\<lambda>c. if 65 \<le> c \<and> c \<le> 90 then c + 32 else c) s
      else lower_other w s)"

definition is_back :: "world \<Rightarrow> str \<Rightarrow> bool" where
  \<comment> \<open>\<^verbatim>\<open>raw.lower() in {"b", "back"}\<close>.\<close>
  "is_back w raw = (lower w raw \<in> {[98], [98, 97, 99, 107]})"

definition is_yes :: "str \<Rightarrow> bool" where
  \<comment> \<open>\<^verbatim>\<open>again in {"y", "yes", "\<dots>", "\<dots>"}\<close>, the last two being the Persian words written
      U+0628 U+0644 U+0647 and U+0622 U+0631 U+0647.\<close>
  "is_yes again = (again \<in> {[121], [121, 101, 115], [1576, 1604, 1607], [1570, 1585, 1607]})"

text \<open>
  What a flow prints, line by line, without colours, shaping and blank lines; the prompts
  themselves are not recorded. \<open>EOFError\<close> is what \<^verbatim>\<open>input()\<close> raises when no line is left,
  \<open>ClockError\<close> whatever \<^verbatim>\<open>date.today()\<close> raises.
\<close>

datatype message = NEED_JALALI | FALLBACK_WARN | ONLINE_INFO

datatype heading = AGE_CARD | CONV_J2G | CONV_G2J

datatype label =
  BIRTH_G | TODAY_G | BIRTH_J | TODAY_J | AGE | NEXT_BD_G | NEXT_BD_J | NEXT_BD | IN_DAYS
  | GREGORIAN | JALALI

datatype field = Greg date | Jal triple | Years_months_days triple | Days int

datatype failure = Core error | EOFError | ClockError

datatype printed =
    Message message
  | Error_line failure
  | Title heading
  | Line label field
  | Box_bottom

datatype outcome = Returned | Raised failure

definition jalali_mirrors :: "backend \<Rightarrow> date \<Rightarrow> date \<Rightarrow> error + printed list" where
  \<comment> \<open>The first block \<^verbatim>\<open>if JALALI_OK:\<close> of \<^verbatim>\<open>show_age_card\<close>.\<close>
  "jalali_mirrors b born_g today_g =
     (if JALALI_OK b then
        (case gdate_to_jtuple b born_g of
           Inl e \<Rightarrow> Inl e
         | Inr jb \<Rightarrow>
             (case gdate_to_jtuple b today_g of
                Inl e \<Rightarrow> Inl e
              | Inr jt \<Rightarrow> Inr [Line BIRTH_J (Jal jb), Line TODAY_J (Jal jt)]))
      else Inr [])"

definition next_birthday_lines :: "backend \<Rightarrow> date \<Rightarrow> date \<Rightarrow> error + printed list" where
  \<comment> \<open>From \<^verbatim>\<open>nb = next_birthday_after(born_g, today_g)\<close> to the lines of the next birthday.\<close>
  "next_birthday_lines b born_g today_g =
     (case next_birthday_after born_g today_g of
        Inl e \<Rightarrow> Inl e
      | Inr nb \<Rightarrow>
          if JALALI_OK b then
            (case gdate_to_jtuple b nb of
               Inl e \<Rightarrow> Inl e
             | Inr jnb \<Rightarrow> Inr [Line NEXT_BD_G (Greg nb), Line NEXT_BD_J (Jal jnb)])
          else Inr [Line NEXT_BD (Greg nb)])"

definition show_age_card ::
  "backend \<Rightarrow> date \<Rightarrow> date \<Rightarrow> triple \<Rightarrow> int \<Rightarrow> printed list \<times> error option" where
  \<comment> \<open>The lines printed, and the exception that ends the card early, if one is raised.\<close>
  "show_age_card b born_g today_g ymd d2n =
     (let top = [Title AGE_CARD, Line BIRTH_G (Greg born_g), Line TODAY_G (Greg today_g)] in
      case jalali_mirrors b born_g today_g of
        Inl e \<Rightarrow> (top, Some e)
      | Inr mirrors \<Rightarrow>
          (let age = [Line AGE (Years_months_days ymd)] in
           case next_birthday_lines b born_g today_g of
             Inl e \<Rightarrow> (top @ mirrors @ age, Some e)
           | Inr next_bd \<Rightarrow>
               (top @ mirrors @ age @ next_bd @ [Line IN_DAYS (Days d2n), Box_bottom], None)))"

definition show_convert_card :: "heading \<Rightarrow> date \<Rightarrow> triple \<Rightarrow> printed list" where
  "show_convert_card title_text g j =
     [Title title_text, Line GREGORIAN (Greg g), Line JALALI (Jal j), Box_bottom]"

definition announce_today :: "world \<Rightarrow> date \<times> printed list \<times> failure option" where
  \<comment> \<open>The first lines of the two age flows: today's date, the message about it, and the
      exception of the second \<^verbatim>\<open>date.today()\<close>, which no \<^verbatim>\<open>try\<close> encloses.\<close>
  "announce_today w =
     (let today = get_current_date (clock w) (network w) in
      if \<not> plausible_year (year today) then (today, [Message FALLBACK_WARN], None)
      else
        (case clock w of
           None \<Rightarrow> (today, [], Some ClockError)
         | Some now \<Rightarrow>
             if today \<noteq> now then (today, [Message ONLINE_INFO], None) else (today, [], None)))"

definition after :: "printed list \<Rightarrow> printed list \<times> str list \<times> outcome \<Rightarrow>
    printed list \<times> str list \<times> outcome" where
  \<comment> \<open>Lines printed before the rest of a run.\<close>
  "after ps r = (case r of (qs, rest, out) \<Rightarrow> (ps @ qs, rest, out))"

definition age_of :: "date \<Rightarrow> date \<Rightarrow> error + triple \<times> int" where
  \<comment> \<open>\<^verbatim>\<open>ymd = age_ymd(born, today)\<close>, then \<^verbatim>\<open>d2n = days_until_next_birthday(born, today)\<close>.\<close>
  "age_of born today =
     (case age_ymd born today of
        Inl e \<Rightarrow> Inl e
      | Inr ymd \<Rightarrow>
          (case days_until_next_birthday born today of
             Inl e \<Rightarrow> Inl e
           | Inr d2n \<Rightarrow> Inr (ymd, d2n)))"

definition jalali_birthdate :: "world \<Rightarrow> str \<Rightarrow> error + date" where
  \<comment> \<open>\<^verbatim>\<open>jy, jm, jd_ = parse_jalali_tuple(raw)\<close>, then
      \<^verbatim>\<open>born_g = jtuple_to_gdate(jy, jm, jd_)\<close>.\<close>
  "jalali_birthdate w raw =
     (case parse_jalali_tuple (decimal w) raw of
        Inl e \<Rightarrow> Inl e
      | Inr t \<Rightarrow>
          (case unpack3 t of
             Inl e \<Rightarrow> Inl e
           | Inr (jy, jm, jd) \<Rightarrow> jtuple_to_gdate (jalali w) jy jm jd))"

fun age_loop :: "world \<Rightarrow> (str \<Rightarrow> error + date) \<Rightarrow> date \<Rightarrow> str list \<Rightarrow>
    printed list \<times> str list \<times> outcome" where
  \<comment> \<open>The \<^verbatim>\<open>while True:\<close> of the two age flows, which differ in how the birthdate is read
      (\<open>birthdate\<close>). The lines typed are consumed one for each prompt; the results are what
      is printed, the lines not read, and how the loop ends.\<close>
  "age_loop w birthdate today [] = ([], [], Raised EOFError)"
| "age_loop w birthdate today (entered # rest) =
     (let raw = normalize_digits (strip entered) in
      if is_back w raw then ([], rest, Returned)
      else
        (case birthdate raw of
           Inl e \<Rightarrow> after [Error_line (Core e)] (age_loop w birthdate today rest)
         | Inr born \<Rightarrow>
             (case age_of born today of
                Inl e \<Rightarrow> after [Error_line (Core e)] (age_loop w birthdate today rest)
              | Inr (ymd, d2n) \<Rightarrow>
                  (case show_age_card (jalali w) born today ymd d2n of
                     (shown, Some e) \<Rightarrow>
                       after (shown @ [Error_line (Core e)]) (age_loop w birthdate today rest)
                   | (shown, None) \<Rightarrow>
                       (case rest of
                          [] \<Rightarrow> (shown @ [Error_line EOFError], [], Raised EOFError)
                        | answer # rest' \<Rightarrow>
                            if is_yes (lower w (strip answer))
                            then after shown (age_loop w birthdate today rest')
                            else (shown, rest', Returned))))))"

definition age_flow :: "world \<Rightarrow> (str \<Rightarrow> error + date) \<Rightarrow> str list \<Rightarrow>
    printed list \<times> str list \<times> outcome" where
  \<comment> \<open>What the two age flows share: from \<^verbatim>\<open>today = get_current_date()\<close> on.\<close>
  "age_flow w birthdate typed =
     (case announce_today w of
        (today, ps, Some f) \<Rightarrow> (ps, typed, Raised f)
      | (today, ps, None) \<Rightarrow> after ps (age_loop w birthdate today typed))"

definition calculate_age_gregorian_flow :: "world \<Rightarrow> str list \<Rightarrow>
    printed list \<times> str list \<times> outcome" where
  "calculate_age_gregorian_flow w typed = age_flow w (parse_gregorian (decimal w)) typed"

definition calculate_age_jalali_flow :: "world \<Rightarrow> str list \<Rightarrow>
    printed list \<times> str list \<times> outcome" where
  "calculate_age_jalali_flow w typed =
     (if \<not> JALALI_OK (jalali w) then ([Message NEED_JALALI], typed, Returned)
      else age_flow w (jalali_birthdate w) typed)"

fun convert_loop :: "world \<Rightarrow> (str \<Rightarrow> error + printed list) \<Rightarrow> str list \<Rightarrow>
    printed list \<times> str list \<times> outcome" where
  \<comment> \<open>The \<^verbatim>\<open>while True:\<close> of the two conversion flows; \<open>convert\<close> is the body of the
      \<^verbatim>\<open>try\<close>, giving the card.\<close>
  "convert_loop w convert [] = ([], [], Raised EOFError)"
| "convert_loop w convert (entered # rest) =
     (let raw = normalize_digits (strip entered) in
      if is_back w raw then ([], rest, Returned)
      else
        (case convert raw of
           Inl e \<Rightarrow> after [Error_line (Core e)] (convert_loop w convert rest)
         | Inr shown \<Rightarrow> after shown (convert_loop w convert rest)))"

definition jalali_to_gregorian_card :: "world \<Rightarrow> str \<Rightarrow> error + printed list" where
  "jalali_to_gregorian_card w raw =
     (case parse_jalali_tuple (decimal w) raw of
        Inl e \<Rightarrow> Inl e
      | Inr t \<Rightarrow>
          (case unpack3 t of
             Inl e \<Rightarrow> Inl e
           | Inr (jy, jm, jd) \<Rightarrow>
               (case jtuple_to_gdate (jalali w) jy jm jd of
                  Inl e \<Rightarrow> Inl e
                | Inr g \<Rightarrow> Inr (show_convert_card CONV_J2G g (jy, jm, jd)))))"

definition gregorian_to_jalali_card :: "world \<Rightarrow> str \<Rightarrow> error + printed list" where
  "gregorian_to_jalali_card w raw =
     (case parse_gregorian (decimal w) raw of
        Inl e \<Rightarrow> Inl e
      | Inr g \<Rightarrow>
          (case gdate_to_jtuple (jalali w) g of
             Inl e \<Rightarrow> Inl e
           | Inr j \<Rightarrow> Inr (show_convert_card CONV_G2J g j)))"

definition convert_jalali_to_gregorian_flow :: "world \<Rightarrow> str list \<Rightarrow>
    printed list \<times> str list \<times> outcome" where
  "convert_jalali_to_gregorian_flow w typed =
     (if \<not> JALALI_OK (jalali w) then ([Message NEED_JALALI], typed, Returned)
      else convert_loop w (jalali_to_gregorian_card w) typed)"

definition convert_gregorian_to_jalali_flow :: "world \<Rightarrow> str list \<Rightarrow>
    printed list \<times> str list \<times> outcome" where
  "convert_gregorian_to_jalali_flow w typed =
     (if \<not> JALALI_OK (jalali w) then ([Message NEED_JALALI], typed, Returned)
      else convert_loop w (gregorian_to_jalali_card w) typed)"

definition unavailable_raised :: "printed list \<times> str list \<times> outcome \<Rightarrow> bool" where
  \<comment> \<open>The \<^verbatim>\<open>RuntimeError\<close> of the two wrappers shows in a run: in a printed error line, or as
      the exception that ends the run.\<close>
  "unavailable_raised r =
     (case r of (ps, rest, out) \<Rightarrow>
        Error_line (Core CapabilityUnavailable) \<in> set ps \<or>
        out = Raised (Core CapabilityUnavailable))"

section \<open>Basic facts about dates\<close>

lemma mdays_cases:
  "1 \<le> m \<Longrightarrow> m \<le> 12 \<Longrightarrow>
   m = 1 \<or> m = 2 \<or> m = 3 \<or> m = 4 \<or> m = 5 \<or> m = 6 \<or> m = 7 \<or> m = 8 \<or> m = 9 \<or> m = 10
     \<or> m = 11 \<or> m = (12::int)"
  by arith

lemma valid_dateD:
  assumes "valid_date g"
  shows "1 \<le> year g" "year g \<le> 9999" "1 \<le> month g" "month g \<le> 12"
        "1 \<le> day g" "day g \<le> days_in_month (year g) (month g)"
  using assms
  by (simp_all add: valid_date_def mk_date_def MINYEAR_def MAXYEAR_def split: if_splits)

lemma valid_dateI:
  "1 \<le> year g \<Longrightarrow> year g \<le> 9999 \<Longrightarrow> 1 \<le> month g \<Longrightarrow> month g \<le> 12 \<Longrightarrow>
   1 \<le> day g \<Longrightarrow> day g \<le> days_in_month (year g) (month g) \<Longrightarrow> valid_date g"
  by (simp add: valid_date_def mk_date_def MINYEAR_def MAXYEAR_def)

lemma monthrange_valid: "1 \<le> m \<Longrightarrow> m \<le> 12 \<Longrightarrow> monthrange y m = Inr (days_in_month y m)"
  using mdays_cases[of m]
  by (auto simp add: monthrange_def days_in_month_def mdays_def)

lemma date_le_iff_not_lt: "date_le a b = (\<not> date_lt b a)"
  by (auto simp add: date_le_def date_lt_def)

lemma days_in_month_bounds:
  "1 \<le> m \<Longrightarrow> m \<le> 12 \<Longrightarrow> 28 \<le> days_in_month y m \<and> days_in_month y m \<le> 31"
  using mdays_cases[of m]
  by (auto simp add: days_in_month_def mdays_def)

subsection \<open>The ordinal of a date grows with the date\<close>

lemma div_step:
  fixes k z :: int
  assumes "0 < k"
  shows "(z + 1) div k = z div k + (if (z + 1) mod k = 0 then 1 else 0)"
proof -
  define q where "q = z div k"
  define r where "r = z mod k"
  have z: "z = k * q + r" and r: "0 \<le> r" "r < k"
    using assms by (simp_all add: q_def r_def)
  show ?thesis
  proof (cases "r = k - 1")
    case True
    then have e: "z + 1 = k * (q + 1) + 0" using z by (simp add: algebra_simps)
    have "(z + 1) div k = q + 1" using int_div_pos_eq[OF e] assms by simp
    moreover have "(z + 1) mod k = 0" using int_mod_pos_eq[OF e] assms by simp
    ultimately show ?thesis by (simp add: q_def)
  next
    case False
    then have b: "0 \<le> r + 1" "r + 1 < k" using r by simp_all
    have e: "z + 1 = k * q + (r + 1)" using z by simp
    have "(z + 1) div k = q" using int_div_pos_eq[OF e b] .
    moreover have "(z + 1) mod k = r + 1" using int_mod_pos_eq[OF e b] .
    ultimately show ?thesis using r by (simp add: q_def)
  qed
qed

lemma mod_100_4: "(y::int) mod 100 = 0 \<Longrightarrow> y mod 4 = 0"
  using dvd_trans[of 4 100 y] by (simp add: mod_eq_0_iff_dvd)

lemma mod_400_100: "(y::int) mod 400 = 0 \<Longrightarrow> y mod 100 = 0"
  using dvd_trans[of 100 400 y] by (simp add: mod_eq_0_iff_dvd)

lemma leap_days:
  "(if isleap y then 366 else 365) =
   365 + (if y mod 4 = 0 then 1 else 0) - (if y mod 100 = 0 then 1 else 0)
       + (if y mod 400 = 0 then 1 else (0::int))"
proof (cases "y mod 400 = 0")
  case True
  then show ?thesis using mod_400_100[of y] mod_100_4[of y] by (simp add: isleap_def)
next
  case n400: False
  show ?thesis
  proof (cases "y mod 100 = 0")
    case True
    then show ?thesis using n400 mod_100_4[of y] by (simp add: isleap_def)
  next
    case False
    then show ?thesis using n400 by (simp add: isleap_def)
  qed
qed

lemma days_before_year_step:
  "days_before_year (y + 1) = days_before_year y + (if isleap y then 366 else 365)"
proof -
  define q4 q100 q400 where "q4 = (y - 1) div 4" and "q100 = (y - 1) div 100"
    and "q400 = (y - 1) div 400"
  define b4 b100 b400 :: int where "b4 = (if y mod 4 = 0 then 1 else 0)"
    and "b100 = (if y mod 100 = 0 then 1 else 0)" and "b400 = (if y mod 400 = 0 then 1 else 0)"
  have a: "y div 4 = q4 + b4"
    using div_step[of 4 "y - 1"] by (simp add: q4_def b4_def)
  have b: "y div 100 = q100 + b100"
    using div_step[of 100 "y - 1"] by (simp add: q100_def b100_def)
  have c: "y div 400 = q400 + b400"
    using div_step[of 400 "y - 1"] by (simp add: q400_def b400_def)
  have l: "(if isleap y then 366 else 365) = 365 + b4 - b100 + b400"
    unfolding b4_def b100_def b400_def by (rule leap_days)
  have "days_before_year (y + 1) = y * 365 + (q4 + b4) - (q100 + b100) + (q400 + b400)"
    by (simp add: days_before_year_def Let_def a b c)
  moreover have "days_before_year y = (y - 1) * 365 + q4 - q100 + q400"
    by (simp add: days_before_year_def Let_def q4_def q100_def q400_def)
  ultimately show ?thesis
    unfolding l by (simp add: algebra_simps)
qed

lemma days_before_year_mono:
  assumes "y \<le> y'"
  shows "days_before_year y \<le> days_before_year y'"
  using assms
proof (induct y' rule: int_ge_induct)
  case base
  then show ?case by simp
next
  case (step i)
  then show ?case using days_before_year_step[of i] by (simp split: if_splits)
qed

lemma days_before_month_step:
  "1 \<le> m \<Longrightarrow> m < 12 \<Longrightarrow>
   days_before_month y (m + 1) = days_before_month y m + days_in_month y m"
  using mdays_cases[of m]
  by (auto simp add: days_before_month_def DAYS_BEFORE_MONTH_def days_in_month_def mdays_def)

lemma days_before_month_last:
  "days_before_month y 12 + days_in_month y 12 = (if isleap y then 366 else 365)"
  by (simp add: days_before_month_def DAYS_BEFORE_MONTH_def days_in_month_def mdays_def)

lemma days_before_month_mono:
  assumes "m \<le> m'" and "1 \<le> m" and "m' \<le> 12"
  shows "days_before_month y m \<le> days_before_month y m'"
  using assms
proof (induct m' rule: int_ge_induct)
  case base
  then show ?case by simp
next
  case (step i)
  then show ?case
    using days_before_month_step[of i y] days_in_month_bounds[of i y] by simp
qed

lemma days_before_month_nonneg: "1 \<le> m \<Longrightarrow> m \<le> 12 \<Longrightarrow> 0 \<le> days_before_month y m"
  using days_before_month_mono[of 1 m y]
  by (simp add: days_before_month_def DAYS_BEFORE_MONTH_def)

lemma days_before_month_end:
  assumes "1 \<le> m" and "m \<le> 12"
  shows "days_before_month y m + days_in_month y m \<le> (if isleap y then 366 else 365)"
proof (cases "m = 12")
  case True
  then show ?thesis using days_before_month_last[of y] by simp
next
  case False
  then have "m < 12" using assms by simp
  then have "days_before_month y m + days_in_month y m = days_before_month y (m + 1)"
    using days_before_month_step[of m y] assms by simp
  also have "\<dots> \<le> days_before_month y 12"
    using days_before_month_mono[of "m + 1" 12 y] assms \<open>m < 12\<close> by simp
  also have "\<dots> \<le> (if isleap y then 366 else 365)"
    using days_before_month_last[of y] days_in_month_bounds[of 12 y] by (simp split: if_splits)
  finally show ?thesis .
qed

lemma toordinal_mono:
  assumes a: "valid_date a" and b: "valid_date b" and lt: "date_lt a b"
  shows "toordinal a < toordinal b"
proof -
  note va = valid_dateD[OF a] and vb = valid_dateD[OF b]
  consider (y) "year a < year b"
    | (m) "year a = year b" "month a < month b"
    | (d) "year a = year b" "month a = month b" "day a < day b"
    using lt by (auto simp add: date_lt_def)
  then show ?thesis
  proof cases
    case y
    have "toordinal a \<le> days_before_year (year a) + (if isleap (year a) then 366 else 365)"
      using days_before_month_end[of "month a" "year a"] va by (simp add: toordinal_def)
    also have "\<dots> = days_before_year (year a + 1)"
      by (simp only: days_before_year_step)
    also have "\<dots> \<le> days_before_year (year b)"
      using y by (intro days_before_year_mono) simp
    also have "\<dots> < toordinal b"
      using days_before_month_nonneg[of "month b" "year b"] vb by (simp add: toordinal_def)
    finally show ?thesis .
  next
    case m
    have "days_before_month (year a) (month a) + day a
            \<le> days_before_month (year a) (month a + 1)"
      using days_before_month_step[of "month a" "year a"] va vb m by simp
    also have "\<dots> \<le> days_before_month (year a) (month b)"
      using m va vb by (intro days_before_month_mono) simp_all
    finally show ?thesis using m vb by (simp add: toordinal_def)
  next
    case d
    then show ?thesis by (simp add: toordinal_def)
  qed
qed

subsection \<open>The age arithmetic returns\<close>

lemma borrow_days_total:
  assumes "valid_date today"
  shows "\<exists>t. borrow_days today (y, m, dd) = Inr t"
proof -
  have m: "1 \<le> month today" "month today \<le> 12" using valid_dateD[OF assms] by simp_all
  show ?thesis
  proof (cases "month today = 1")
    case True
    then show ?thesis by (simp add: borrow_days_def monthrange_valid)
  next
    case False
    with m have "1 \<le> month today - 1" "month today - 1 \<le> 12" by simp_all
    then show ?thesis using False by (simp add: borrow_days_def monthrange_valid)
  qed
qed

text \<open>
  What holds of every age: years and months are in range, the day count is at most 30 and
  never below -2. It is negative when the month borrowed from is shorter than the gap
  between the two days of the month.
\<close>

lemma borrow_days_eq:
  assumes "valid_date today"
  shows "borrow_days today (y, m, d) =
           Inr (if d < 0
                then (y, m - 1,
                      d + (if month today = 1 then days_in_month (year today - 1) 12
                           else days_in_month (year today) (month today - 1)))
                else (y, m, d))"
proof -
  have m: "1 \<le> month today" "month today \<le> 12" using valid_dateD[OF assms] by simp_all
  show ?thesis
  proof (cases "month today = 1")
    case True
    then show ?thesis by (simp add: borrow_days_def monthrange_valid)
  next
    case False
    with m have "1 \<le> month today - 1" "month today - 1 \<le> 12" by simp_all
    then show ?thesis using False by (simp add: borrow_days_def monthrange_valid)
  qed
qed

lemma age_ymd_bounds:
  assumes b: "valid_date born" and t: "valid_date today" and le: "date_le born today"
    and r: "age_ymd born today = Inr (y, m, d)"
  shows "0 \<le> y \<and> 0 \<le> m \<and> m \<le> 11 \<and> - 2 \<le> d \<and> d \<le> 30"
proof -
  note vb = valid_dateD[OF b] and vt = valid_dateD[OF t]
  define p where "p = (if month today = 1 then days_in_month (year today - 1) 12
                       else days_in_month (year today) (month today - 1))"
  have p: "28 \<le> p" "p \<le> 31"
    using days_in_month_bounds[of 12 "year today - 1"]
      days_in_month_bounds[of "month today - 1" "year today"] vt
    by (auto simp add: p_def)
  have db: "day born \<le> 31" "day today \<le> 31"
    using vb vt days_in_month_bounds[of "month born" "year born"]
      days_in_month_bounds[of "month today" "year today"] by simp_all
  have "borrow_months
          (if day today - day born < 0
           then (year today - year born, month today - month born - 1, day today - day born + p)
           else (year today - year born, month today - month born, day today - day born))
        = (y, m, d)"
    using r le unfolding p_def
    by (simp add: age_ymd_def date_le_iff_not_lt borrow_days_eq[OF t])
  then show ?thesis
    using le vb vt p db
    by (auto simp add: borrow_months_def date_le_def split: if_splits)
qed

lemma age_ymd_example:
  "age_ymd \<lparr>year = 1990, month = 7, day = 15\<rparr> \<lparr>year = 2025, month = 10, day = 18\<rparr>
     = Inr (35, 3, 3)"
  by (simp add: age_ymd_def date_lt_def borrow_days_def borrow_months_def)

subsection \<open>The next birthday\<close>

lemma safe_date_in_range:
  assumes "1 \<le> y" "y \<le> 9999" "1 \<le> month born" "month born \<le> 12" "1 \<le> day born"
  shows "safe_date y (month born) (day born) = Inr (observance born y)"
  using assms days_in_month_bounds[of "month born" y]
  by (simp add: safe_date_def monthrange_valid mk_date_def MINYEAR_def MAXYEAR_def observance_def)

lemma safe_date_year_10000:
  assumes "1 \<le> m" "m \<le> 12"
  shows "safe_date 10000 m d = Inl InvalidCalendarDate"
  using assms
  by (simp add: safe_date_def monthrange_def mk_date_def MINYEAR_def MAXYEAR_def)

lemma valid_observance:
  assumes "valid_date born" "1 \<le> y" "y \<le> 9999"
  shows "valid_date (observance born y)"
  using valid_dateD[OF assms(1)] assms(2,3) days_in_month_bounds[of "month born" y]
  by (intro valid_dateI) (simp_all add: observance_def)

lemma next_birthday_after_eq:
  assumes b: "valid_date born" and t: "valid_date today"
  shows "next_birthday_after born today =
           (if date_le (observance born (year today)) today
            then (if year today < 9999 then Inr (observance born (year today + 1))
                  else Inl InvalidCalendarDate)
            else Inr (observance born (year today)))"
proof -
  note vb = valid_dateD[OF b] and vt = valid_dateD[OF t]
  have c: "safe_date (year today) (month born) (day born) = Inr (observance born (year today))"
    using vb vt by (intro safe_date_in_range) simp_all
  show ?thesis
  proof (cases "year today < 9999")
    case True
    then have "safe_date (year today + 1) (month born) (day born)
                 = Inr (observance born (year today + 1))"
      using vb vt by (intro safe_date_in_range) simp_all
    then show ?thesis using c True by (simp add: next_birthday_after_def)
  next
    case False
    then have "year today + 1 = 10000" using vt by simp
    then have "safe_date (year today + 1) (month born) (day born) = Inl InvalidCalendarDate"
      using safe_date_year_10000[of "month born" "day born"] vb by simp
    then show ?thesis using c False by (simp add: next_birthday_after_def)
  qed
qed

lemma next_birthday_after_later:
  assumes b: "valid_date born" and t: "valid_date today"
    and r: "next_birthday_after born today = Inr c"
  shows "date_lt today c \<and> valid_date c"
proof (cases "date_le (observance born (year today)) today")
  case True
  then have y: "year today < 9999" and c: "c = observance born (year today + 1)"
    using r next_birthday_after_eq[OF b t] by (simp_all split: if_splits)
  have "date_lt today c" by (simp add: c date_lt_def observance_def)
  moreover have "valid_date c"
    unfolding c using valid_dateD[OF t] y by (intro valid_observance[OF b]) simp_all
  ultimately show ?thesis ..
next
  case False
  then have c: "c = observance born (year today)"
    using r next_birthday_after_eq[OF b t] by simp
  have "date_lt today c" using False by (simp add: c date_le_iff_not_lt)
  moreover have "valid_date c"
    unfolding c using valid_dateD[OF t] by (intro valid_observance[OF b]) simp_all
  ultimately show ?thesis ..
qed

lemma days_until_next_birthday_pos:
  assumes b: "valid_date born" and t: "valid_date today"
    and r: "days_until_next_birthday born today = Inr n"
  shows "1 \<le> n"
proof -
  obtain c where c: "next_birthday_after born today = Inr c" and n: "n = date_diff_days c today"
    using r by (auto simp add: days_until_next_birthday_def split: sum.splits)
  have "toordinal today < toordinal c"
    using next_birthday_after_later[OF b t c] t by (intro toordinal_mono) simp_all
  then show ?thesis by (simp add: n date_diff_days_def)
qed

lemma days_until_next_birthday_returns:
  assumes "valid_date born" and "valid_date today" and "year today < 9999"
  shows "\<exists>n. days_until_next_birthday born today = Inr n"
  using assms(3)
  by (cases "date_le (observance born (year today)) today")
    (simp_all add: days_until_next_birthday_def next_birthday_after_eq[OF assms(1,2)])

text \<open>The equations that evaluate the date functions on literals.\<close>

lemmas date_eval =
  valid_date_def mk_date_def MINYEAR_def MAXYEAR_def days_in_month_def mdays_def isleap_def
  date_le_def date_lt_def observance_def

section \<open>Facts about the parsers\<close>

subsection \<open>What a match of the date pattern looks like\<close>

lemma list_ex_upt: "list_ex P [m..<Suc n] = (\<exists>k. m \<le> k \<and> k \<le> n \<and> P k)"
  by (auto simp add: list_ex_iff)

lemma fullmatch_Digits:
  "fullmatch nd (Digits m n # p) s =
     (\<exists>ds rest. s = ds @ rest \<and> m \<le> length ds \<and> length ds \<le> n \<and>
        list_all (isdigit nd) ds \<and> fullmatch nd p rest)"
proof
  assume "fullmatch nd (Digits m n # p) s"
  then obtain k where k: "m \<le> k" "k \<le> n" "k \<le> length s"
      "list_all (isdigit nd) (take k s)" "fullmatch nd p (drop k s)"
    by (auto simp only: fullmatch.simps list_ex_upt)
  have "s = take k s @ drop k s" by simp
  moreover have "length (take k s) = k" using k(3) by simp
  ultimately show "\<exists>ds rest. s = ds @ rest \<and> m \<le> length ds \<and> length ds \<le> n \<and>
        list_all (isdigit nd) ds \<and> fullmatch nd p rest"
    using k by metis
next
  assume "\<exists>ds rest. s = ds @ rest \<and> m \<le> length ds \<and> length ds \<le> n \<and>
        list_all (isdigit nd) ds \<and> fullmatch nd p rest"
  then obtain ds rest where "s = ds @ rest" "m \<le> length ds" "length ds \<le> n"
      "list_all (isdigit nd) ds" "fullmatch nd p rest"
    by blast
  then have "m \<le> length ds \<and> length ds \<le> n \<and> length ds \<le> length s \<and>
      list_all (isdigit nd) (take (length ds) s) \<and> fullmatch nd p (drop (length ds) s)"
    by simp
  then show "fullmatch nd (Digits m n # p) s"
    unfolding fullmatch.simps list_ex_upt by (rule exI)
qed

lemma fullmatch_Lit:
  "fullmatch nd (Lit a # p) s = (\<exists>rest. s = a # rest \<and> fullmatch nd p rest)"
  by (cases s) auto

lemma fullmatch_date_patternD:
  assumes "fullmatch nd date_pattern s"
  obtains ys ms ds where "s = ys @ 45 # ms @ 45 # ds" and "length ys = 4"
    and "1 \<le> length ms" and "length ms \<le> 2" and "1 \<le> length ds" and "length ds \<le> 2"
    and "list_all (isdigit nd) ys" and "list_all (isdigit nd) ms"
    and "list_all (isdigit nd) ds"
proof -
  from assms obtain ys r1 where ys: "s = ys @ r1" "4 \<le> length ys" "length ys \<le> 4"
      "list_all (isdigit nd) ys"
    and r1: "fullmatch nd [Lit 45, Digits 1 2, Lit 45, Digits 1 2] r1"
    unfolding date_pattern_def fullmatch_Digits by blast
  from r1 obtain r2 where r2: "r1 = 45 # r2" "fullmatch nd [Digits 1 2, Lit 45, Digits 1 2] r2"
    unfolding fullmatch_Lit by blast
  from r2(2) obtain ms r3 where ms: "r2 = ms @ r3" "1 \<le> length ms" "length ms \<le> 2"
      "list_all (isdigit nd) ms"
    and r3: "fullmatch nd [Lit 45, Digits 1 2] r3"
    unfolding fullmatch_Digits by blast
  from r3 obtain r4 where r4: "r3 = 45 # r4" "fullmatch nd [Digits 1 2] r4"
    unfolding fullmatch_Lit by blast
  from r4(2) obtain ds r5 where ds: "r4 = ds @ r5" "1 \<le> length ds" "length ds \<le> 2"
      "list_all (isdigit nd) ds"
    and r5: "fullmatch nd [] r5"
    unfolding fullmatch_Digits by blast
  have "s = ys @ 45 # ms @ 45 # ds"
    using ys(1) r2(1) ms(1) r4(1) ds(1) r5 by simp
  moreover have "length ys = 4" using ys(2,3) by simp
  ultimately show thesis using that ms(2-4) ds(2-4) ys(4) by blast
qed

lemma fullmatch_date_patternI:
  assumes "length ys = 4" and "1 \<le> length ms" and "length ms \<le> 2"
    and "1 \<le> length ds" and "length ds \<le> 2"
    and "list_all (isdigit nd) ys" and "list_all (isdigit nd) ms"
    and "list_all (isdigit nd) ds"
  shows "fullmatch nd date_pattern (ys @ 45 # ms @ 45 # ds)"
proof -
  have 5: "fullmatch nd [Digits 1 2] ds"
    unfolding fullmatch_Digits using assms(4,5,8) by (intro exI[of _ ds] exI[of _ "[]"]) simp
  have 4: "fullmatch nd [Lit 45, Digits 1 2] (45 # ds)"
    unfolding fullmatch_Lit using 5 by blast
  have 3: "fullmatch nd [Digits 1 2, Lit 45, Digits 1 2] (ms @ 45 # ds)"
    unfolding fullmatch_Digits using assms(2,3,7) 4 by blast
  have 2: "fullmatch nd [Lit 45, Digits 1 2, Lit 45, Digits 1 2] (45 # ms @ 45 # ds)"
    unfolding fullmatch_Lit using 3 by blast
  show ?thesis
    unfolding date_pattern_def fullmatch_Digits using assms(1,6) 2
    by (intro exI[of _ ys] exI[of _ "45 # ms @ 45 # ds"]) simp
qed

lemma isdigit_not_dash: "\<not> isdigit nd 45"
  by (simp add: isdigit_def digit_value_def)

lemma digits_no_dash: "list_all (isdigit nd) ds \<Longrightarrow> 45 \<notin> set ds"
  using isdigit_not_dash by (auto simp add: list_all_iff)

lemma split_not_Nil: "split sep s \<noteq> []"
  by (induction s) (auto split: list.splits)

lemma split_no_sep: "sep \<notin> set ds \<Longrightarrow> split sep ds = [ds]"
  by (induction ds) auto

lemma split_append_sep: "sep \<notin> set ds \<Longrightarrow> split sep (ds @ sep # rest) = ds # split sep rest"
  by (induction ds) (auto split: list.splits)

lemma int_of_str_digits:
  assumes "1 \<le> length ds" and "list_all (isdigit nd) ds"
  shows "\<exists>v. int_of_str nd ds = Inr v"
  using assms by (auto simp add: int_of_str_def)

lemma parts_of_match:
  assumes "fullmatch nd date_pattern s"
  shows "\<exists>y m d. map_int nd (split 45 s) = Inr [y, m, d]"
proof -
  from assms obtain ys ms ds where s: "s = ys @ 45 # ms @ 45 # ds" and "length ys = 4"
    and "1 \<le> length ms" and "1 \<le> length ds"
    and all: "list_all (isdigit nd) ys" "list_all (isdigit nd) ms" "list_all (isdigit nd) ds"
    by (rule fullmatch_date_patternD)
  then obtain y m d where "int_of_str nd ys = Inr y" "int_of_str nd ms = Inr m"
      "int_of_str nd ds = Inr d"
    using int_of_str_digits[of ys nd] int_of_str_digits[of ms nd] int_of_str_digits[of ds nd]
    by auto
  moreover have "split 45 s = [ys, ms, ds]"
    unfolding s using digits_no_dash[OF all(1)] digits_no_dash[OF all(2)]
      digits_no_dash[OF all(3)]
    by (simp add: split_append_sep split_no_sep)
  ultimately show ?thesis by simp
qed

subsection \<open>The digit table of \<^verbatim>\<open>normalize_digits\<close>\<close>

lemma translate_cases:
  obtains (persian) "1776 \<le> c" and "c \<le> 1785" and "translate P2L_DIGITS c = c - 1728"
  | (arabic) "1632 \<le> c" and "c \<le> 1641" and "translate P2L_DIGITS c = c - 1584"
  | (other) "c < 1632 \<or> (1641 < c \<and> c < 1776) \<or> 1785 < c" and "translate P2L_DIGITS c = c"
proof -
  consider "1632 \<le> c \<and> c \<le> 1641" | "1776 \<le> c \<and> c \<le> 1785"
    | "c < 1632 \<or> (1641 < c \<and> c < 1776) \<or> 1785 < c"
    by linarith
  then show thesis
  proof cases
    case 1
    then have "c = 1632 \<or> c = 1633 \<or> c = 1634 \<or> c = 1635 \<or> c = 1636 \<or> c = 1637 \<or> c = 1638
        \<or> c = 1639 \<or> c = 1640 \<or> c = 1641"
      by arith
    then have "translate P2L_DIGITS c = c - 1584"
      by (auto simp add: translate_def P2L_DIGITS_def)
    with 1 show thesis using arabic by blast
  next
    case 2
    then have "c = 1776 \<or> c = 1777 \<or> c = 1778 \<or> c = 1779 \<or> c = 1780 \<or> c = 1781 \<or> c = 1782
        \<or> c = 1783 \<or> c = 1784 \<or> c = 1785"
      by arith
    then have "translate P2L_DIGITS c = c - 1728"
      by (auto simp add: translate_def P2L_DIGITS_def)
    with 2 show thesis using persian by blast
  next
    case 3
    then have "translate P2L_DIGITS c = c"
      by (auto simp add: translate_def P2L_DIGITS_def)
    with 3 show thesis using other by blast
  qed
qed

lemma digit_value_translate: "digit_value nd (translate P2L_DIGITS c) = digit_value nd c"
proof (cases c rule: translate_cases)
  case persian
  then have "48 \<le> c - 1728 \<and> c - 1728 \<le> 57 \<and> c - 1728 - 48 = c - 1776" by arith
  then show ?thesis using persian by (simp add: digit_value_def)
next
  case arabic
  then have "48 \<le> c - 1584 \<and> c - 1584 \<le> 57 \<and> c - 1584 - 48 = c - 1632" by arith
  then show ?thesis using arabic by (simp add: digit_value_def)
next
  case other
  then show ?thesis by simp
qed

lemma isdigit_translate: "isdigit nd (translate P2L_DIGITS c) = isdigit nd c"
  by (simp add: isdigit_def digit_value_translate)

lemma translate_eq_below_digits:
  assumes "a < 48"
  shows "(translate P2L_DIGITS c = a) = (c = a)"
proof (cases c rule: translate_cases)
  case persian
  then show ?thesis using assms by arith
next
  case arabic
  then show ?thesis using assms by arith
next
  case other
  then show ?thesis by simp
qed

lemma isspace_translate: "isspace (translate P2L_DIGITS c) = isspace c"
proof (cases c rule: translate_cases)
  case persian
  then have "48 \<le> c - 1728 \<and> c - 1728 \<le> 57" by arith
  then show ?thesis using persian by (simp add: isspace_def)
next
  case arabic
  then have "48 \<le> c - 1584 \<and> c - 1584 \<le> 57" by arith
  then show ?thesis using arabic by (simp add: isspace_def)
next
  case other
  then show ?thesis by simp
qed

lemma translate_P2L_DIGITS:
  "translate P2L_DIGITS c =
     (if 1776 \<le> c \<and> c \<le> 1785 then 48 + (c - 1776)
      else if 1632 \<le> c \<and> c \<le> 1641 then 48 + (c - 1632) else c)"
proof (cases c rule: translate_cases)
  case persian
  then show ?thesis by simp
next
  case arabic
  then show ?thesis by simp
next
  case other
  then show ?thesis by auto
qed

lemma normalize_digits_eq:
  "normalize_digits s =
     map (\<lambda>c. if 1776 \<le> c \<and> c \<le> 1785 then 48 + (c - 1776)
              else if 1632 \<le> c \<and> c \<le> 1641 then 48 + (c - 1632) else c) s"
  by (simp add: normalize_digits_def translate_P2L_DIGITS)

subsection \<open>Digits of any of the three scripts are read alike\<close>

text \<open>A map on characters that keeps what the parsers look at.\<close>

lemma strip_map:
  assumes "\<And>c. isspace (f c) = isspace c"
  shows "strip (map f s) = map f (strip s)"
proof -
  have "isspace \<circ> f = isspace" using assms by (simp add: fun_eq_iff)
  then show ?thesis by (simp add: strip_def dropWhile_map rev_map)
qed

lemma fullmatch_map:
  assumes d: "\<And>c. isdigit nd (f c) = isdigit nd c"
    and l: "\<And>a c. Lit a \<in> set p \<Longrightarrow> (f c = a) = (c = a)"
  shows "fullmatch nd p (map f s) = fullmatch nd p s"
  using l
proof (induction p arbitrary: s)
  case Nil
  show ?case by simp
next
  case (Cons i p)
  then have ih: "\<And>s. fullmatch nd p (map f s) = fullmatch nd p s" by simp
  show ?case
  proof (cases i)
    case (Lit a)
    then have "\<And>c. (f c = a) = (c = a)" using Cons.prems by simp
    then show ?thesis using Lit ih by (cases s) simp_all
  next
    case (Digits m n)
    have "list_all (isdigit nd) (map f xs) = list_all (isdigit nd) xs" for xs
      using d by (simp add: list_all_iff)
    then show ?thesis
      unfolding Digits fullmatch.simps length_map take_map drop_map ih by simp
  qed
qed

lemma split_map:
  assumes "\<And>c. (f c = sep) = (c = sep)"
  shows "split sep (map f s) = map (map f) (split sep s)"
  using assms by (induction s) (auto split: list.splits)

lemma int_of_str_map:
  assumes "\<And>c. digit_value nd (f c) = digit_value nd c"
  shows "int_of_str nd (map f s) = int_of_str nd s"
proof -
  have "list_all (isdigit nd) (map f s) = list_all (isdigit nd) s"
    using assms by (simp add: list_all_iff isdigit_def)
  then show ?thesis
    using assms by (simp add: int_of_str_def foldl_map)
qed

lemma map_int_map:
  assumes "\<And>c. digit_value nd (f c) = digit_value nd c"
  shows "map_int nd (map (map f) ps) = map_int nd ps"
  by (induction ps) (simp_all add: int_of_str_map[OF assms] split: sum.splits)

lemma normalize_sep_normalize_digits:
  "normalize_sep (normalize_digits s) = normalize_digits (normalize_sep s)"
proof -
  have "(if translate P2L_DIGITS c = 47 \<or> translate P2L_DIGITS c = 46 then 45
         else translate P2L_DIGITS c)
        = translate P2L_DIGITS (if c = 47 \<or> c = 46 then 45 else c)" for c
    using translate_eq_below_digits[of 47 c] translate_eq_below_digits[of 46 c]
      translate_eq_below_digits[of 45 45]
    by simp
  then show ?thesis
    by (simp add: normalize_sep_def normalize_digits_def strip_map[OF isspace_translate])
qed

lemma fullmatch_normalize_digits:
  "fullmatch nd date_pattern (normalize_digits s) = fullmatch nd date_pattern s"
  unfolding normalize_digits_def
  by (rule fullmatch_map) (auto simp add: isdigit_translate date_pattern_def
      translate_eq_below_digits)

lemma parts_normalize_digits:
  "map_int nd (split 45 (normalize_digits s)) = map_int nd (split 45 s)"
  unfolding normalize_digits_def
  by (simp add: split_map translate_eq_below_digits map_int_map digit_value_translate)

lemma parse_gregorian_normalize_digits:
  "parse_gregorian nd (normalize_digits s) = parse_gregorian nd s"
  by (simp add: parse_gregorian_def normalize_sep_normalize_digits fullmatch_normalize_digits
      parts_normalize_digits)

lemma parse_jalali_tuple_normalize_digits:
  "parse_jalali_tuple nd (normalize_digits s) = parse_jalali_tuple nd s"
  by (simp add: parse_jalali_tuple_def normalize_sep_normalize_digits
      fullmatch_normalize_digits parts_normalize_digits)

lemma normalize_sep_separators:
  "normalize_sep (map (\<lambda>c. if c = 47 \<or> c = 46 then 45 else c) s) = normalize_sep s"
proof -
  have "isspace (if c = 47 \<or> c = 46 then 45 else c) = isspace c" for c
    by (simp add: isspace_def)
  then have "strip (map (\<lambda>c. if c = 47 \<or> c = 46 then 45 else c) s)
             = map (\<lambda>c. if c = 47 \<or> c = 46 then 45 else c) (strip s)"
    by (rule strip_map)
  then show ?thesis by (simp add: normalize_sep_def)
qed

text \<open>The equations that evaluate the parsers on literals.\<close>

lemmas parse_eval =
  parse_gregorian_def parse_jalali_tuple_def normalize_sep_def strip_def isspace_def
  date_pattern_def isdigit_def digit_value_def int_of_str_def unpack3_def upt_rec

section \<open>Facts about the wrappers and the flows\<close>

subsection \<open>The exceptions each function can raise\<close>

lemma mk_date_error: "mk_date y m d = Inl e \<Longrightarrow> e = InvalidCalendarDate"
  by (simp add: mk_date_def split: if_splits)

lemma monthrange_error: "monthrange y m = Inl e \<Longrightarrow> e = IllegalMonthError"
  by (simp add: monthrange_def split: if_splits)

lemma age_ymd_error: "age_ymd born today = Inl e \<Longrightarrow> e = FutureBirthdate \<or> e = IllegalMonthError"
  by (auto simp add: age_ymd_def borrow_days_def Let_def
      split: if_splits sum.splits prod.splits dest: monthrange_error)

lemma safe_date_error:
  "safe_date y m d = Inl e \<Longrightarrow> e = InvalidCalendarDate \<or> e = IllegalMonthError"
  by (auto simp add: safe_date_def split: sum.splits dest: monthrange_error mk_date_error)

lemma next_birthday_after_error:
  "next_birthday_after born today = Inl e \<Longrightarrow> e = InvalidCalendarDate \<or> e = IllegalMonthError"
  by (auto simp add: next_birthday_after_def split: sum.splits if_splits dest: safe_date_error)

lemma days_until_next_birthday_error:
  "days_until_next_birthday born today = Inl e \<Longrightarrow>
   e = InvalidCalendarDate \<or> e = IllegalMonthError"
  by (auto simp add: days_until_next_birthday_def split: sum.splits
      dest: next_birthday_after_error)

lemma int_of_str_error: "int_of_str nd s = Inl e \<Longrightarrow> e = InvalidLiteral"
  by (simp add: int_of_str_def split: if_splits)

lemma map_int_error: "map_int nd ps = Inl e \<Longrightarrow> e = InvalidLiteral"
  by (induction ps arbitrary: e) (auto split: sum.splits dest: int_of_str_error)

lemma unpack3_error: "unpack3 xs = Inl e \<Longrightarrow> e = InvalidLiteral"
  by (simp add: unpack3_def split: list.splits)

lemma parse_jalali_tuple_error: "parse_jalali_tuple nd s = Inl e \<Longrightarrow> e = InvalidFormat"
proof (cases "fullmatch nd date_pattern (normalize_sep s)")
  case True
  then obtain y m d where "map_int nd (split 45 (normalize_sep s)) = Inr [y, m, d]"
    using parts_of_match by blast
  then have "parse_jalali_tuple nd s = Inr [y, m, d]"
    using True by (simp add: parse_jalali_tuple_def)
  moreover assume "parse_jalali_tuple nd s = Inl e"
  ultimately show ?thesis by simp
next
  case False
  moreover assume "parse_jalali_tuple nd s = Inl e"
  ultimately show ?thesis by (simp add: parse_jalali_tuple_def)
qed

lemma parse_gregorian_error:
  "parse_gregorian nd s = Inl e \<Longrightarrow> e = InvalidFormat \<or> e = InvalidCalendarDate"
proof (cases "fullmatch nd date_pattern (normalize_sep s)")
  case True
  then obtain y m d where "map_int nd (split 45 (normalize_sep s)) = Inr [y, m, d]"
    using parts_of_match by blast
  then have "parse_gregorian nd s = mk_date y m d"
    using True by (simp add: parse_gregorian_def unpack3_def)
  moreover assume "parse_gregorian nd s = Inl e"
  ultimately show ?thesis using mk_date_error by simp
next
  case False
  moreover assume "parse_gregorian nd s = Inl e"
  ultimately show ?thesis by (simp add: parse_gregorian_def)
qed

lemma gdate_to_jtuple_error:
  "gdate_to_jtuple b gd = Inl e \<Longrightarrow>
   (e = CapabilityUnavailable \<and> b = NoBackend) \<or> (e = InvalidCalendarDate \<and> b \<noteq> NoBackend)"
  by (auto simp add: gdate_to_jtuple_def raised_def split: backend.splits option.splits)

lemma jtuple_to_gdate_error:
  "jtuple_to_gdate b jy jm jd = Inl e \<Longrightarrow>
   (e = CapabilityUnavailable \<and> b = NoBackend) \<or> (e = InvalidCalendarDate \<and> b \<noteq> NoBackend)"
  by (auto simp add: jtuple_to_gdate_def raised_def
      split: backend.splits option.splits sum.splits prod.splits dest: mk_date_error)

lemma JALALI_OK_iff: "JALALI_OK b = (b \<noteq> NoBackend)"
  by (simp add: JALALI_OK_def split: backend.splits)

lemma show_age_card_error:
  "show_age_card b born today ymd d2n = (ps, Some e) \<Longrightarrow> e \<noteq> CapabilityUnavailable"
  by (auto simp add: show_age_card_def jalali_mirrors_def next_birthday_lines_def Let_def
      JALALI_OK_iff
      split: sum.splits if_splits
      dest: gdate_to_jtuple_error next_birthday_after_error)

lemma show_age_card_lines:
  "show_age_card b born today ymd d2n = (ps, r) \<Longrightarrow> Error_line f \<notin> set ps"
  by (auto simp add: show_age_card_def jalali_mirrors_def next_birthday_lines_def Let_def
      split: sum.splits if_splits)

subsection \<open>No run of a loop shows the error of a missing backend\<close>

lemma unavailable_raised_triple:
  "unavailable_raised (ps, rest, out) =
     (Error_line (Core CapabilityUnavailable) \<in> set ps \<or>
      out = Raised (Core CapabilityUnavailable))"
  by (simp add: unavailable_raised_def)

lemma unavailable_raised_after:
  "unavailable_raised (after ps r) =
     (Error_line (Core CapabilityUnavailable) \<in> set ps \<or> unavailable_raised r)"
  by (cases r) (auto simp add: unavailable_raised_def after_def)

lemma age_of_error: "age_of born today = Inl e \<Longrightarrow> e \<noteq> CapabilityUnavailable"
  by (auto simp add: age_of_def split: sum.splits
      dest: age_ymd_error days_until_next_birthday_error)

lemma age_loop_available:
  assumes "\<And>raw. birthdate raw \<noteq> Inl CapabilityUnavailable"
  shows "\<not> unavailable_raised (age_loop w birthdate today typed)"
proof (induction typed rule: length_induct)
  case (1 typed)
  show ?case
  proof (cases typed)
    case Nil
    then show ?thesis by (simp add: unavailable_raised_triple)
  next
    case (Cons line rest)
    have ih: "\<not> unavailable_raised (age_loop w birthdate today rest)"
      using 1 Cons by simp
    have ih': "\<not> unavailable_raised (age_loop w birthdate today rest')"
      if "rest = answer # rest'" for answer rest'
      using 1 Cons that by simp
    define raw where "raw = normalize_digits (strip line)"
    show ?thesis
    proof (cases "is_back w raw")
      case True
      then show ?thesis
        using Cons by (simp add: raw_def unavailable_raised_triple)
    next
      case nb: False
      show ?thesis
      proof (cases "birthdate raw")
        case (Inl e)
        then have "e \<noteq> CapabilityUnavailable" using assms[of raw] by auto
        then show ?thesis
          using Cons nb Inl ih by (simp add: raw_def[symmetric] unavailable_raised_after)
      next
        case (Inr born)
        show ?thesis
        proof (cases "age_of born today")
          case (Inl e)
          then have "e \<noteq> CapabilityUnavailable" by (rule age_of_error)
          then show ?thesis
            using Cons nb Inr Inl ih by (simp add: raw_def[symmetric] unavailable_raised_after)
        next
          case age: (Inr a)
          obtain ymd d2n where a: "a = (ymd, d2n)" by (cases a)
          obtain shown r where c: "show_age_card (jalali w) born today ymd d2n = (shown, r)"
            by (cases "show_age_card (jalali w) born today ymd d2n")
          have s: "Error_line (Core CapabilityUnavailable) \<notin> set shown"
            using show_age_card_lines[OF c] .
          show ?thesis
          proof (cases r)
            case (Some e)
            then have "e \<noteq> CapabilityUnavailable" using show_age_card_error c by blast
            then show ?thesis
              using Cons nb Inr age a c Some ih s
              by (simp add: raw_def[symmetric] unavailable_raised_after)
          next
            case None
            show ?thesis
            proof (cases rest)
              case Nil
              then show ?thesis
                using Cons nb Inr age a c None s
                by (simp add: raw_def[symmetric] unavailable_raised_triple)
            next
              case (Cons answer rest')
              then show ?thesis
                using \<open>typed = line # rest\<close> nb Inr age a c None s ih'[OF Cons]
                by (simp add: raw_def[symmetric] unavailable_raised_after unavailable_raised_triple)
            qed
          qed
        qed
      qed
    qed
  qed
qed

lemma convert_loop_available:
  assumes "\<And>raw. convert raw \<noteq> Inl CapabilityUnavailable"
    and "\<And>raw shown. convert raw = Inr shown \<Longrightarrow>
           Error_line (Core CapabilityUnavailable) \<notin> set shown"
  shows "\<not> unavailable_raised (convert_loop w convert typed)"
proof (induction typed)
  case Nil
  show ?case by (simp add: unavailable_raised_triple)
next
  case (Cons line rest)
  show ?case
  proof (cases "convert (normalize_digits (strip line))")
    case (Inl e)
    then have "e \<noteq> CapabilityUnavailable" using assms(1) by metis
    then show ?thesis
      using Cons Inl by (simp add: Let_def unavailable_raised_after unavailable_raised_triple)
  next
    case (Inr shown)
    then show ?thesis
      using Cons assms(2)[OF Inr]
      by (simp add: Let_def unavailable_raised_after unavailable_raised_triple)
  qed
qed

lemma age_flow_available:
  assumes "\<And>raw. birthdate raw \<noteq> Inl CapabilityUnavailable"
  shows "\<not> unavailable_raised (age_flow w birthdate typed)"
proof -
  obtain today ps f where a: "announce_today w = (today, ps, f)"
    by (cases "announce_today w")
  have ps: "Error_line (Core CapabilityUnavailable) \<notin> set ps"
    using a by (auto simp add: announce_today_def Let_def split: if_splits option.splits)
  show ?thesis
  proof (cases f)
    case None
    then show ?thesis
      using a ps age_loop_available[OF assms, where w = w and today = today and typed = typed]
      by (simp add: age_flow_def unavailable_raised_after)
  next
    case (Some e)
    then have "e = ClockError"
      using a by (auto simp add: announce_today_def Let_def split: if_splits option.splits)
    then show ?thesis
      using a ps Some by (simp add: age_flow_def unavailable_raised_triple)
  qed
qed

lemma jalali_birthdate_available:
  assumes "JALALI_OK (jalali w)"
  shows "jalali_birthdate w raw \<noteq> Inl CapabilityUnavailable"
  using assms
  by (auto simp add: jalali_birthdate_def JALALI_OK_iff split: sum.splits prod.splits
      dest: parse_jalali_tuple_error unpack3_error jtuple_to_gdate_error)

lemma jalali_to_gregorian_card_available:
  assumes "JALALI_OK (jalali w)"
  shows "jalali_to_gregorian_card w raw \<noteq> Inl CapabilityUnavailable"
  using assms
  by (auto simp add: jalali_to_gregorian_card_def JALALI_OK_iff split: sum.splits prod.splits
      dest: parse_jalali_tuple_error unpack3_error jtuple_to_gdate_error)

lemma jalali_to_gregorian_card_lines:
  "jalali_to_gregorian_card w raw = Inr shown \<Longrightarrow> Error_line f \<notin> set shown"
  by (auto simp add: jalali_to_gregorian_card_def show_convert_card_def
      split: sum.splits prod.splits)

lemma gregorian_to_jalali_card_available:
  assumes "JALALI_OK (jalali w)"
  shows "gregorian_to_jalali_card w raw \<noteq> Inl CapabilityUnavailable"
  using assms
  by (auto simp add: gregorian_to_jalali_card_def JALALI_OK_iff split: sum.splits
      dest: parse_gregorian_error gdate_to_jtuple_error)

lemma gregorian_to_jalali_card_lines:
  "gregorian_to_jalali_card w raw = Inr shown \<Longrightarrow> Error_line f \<notin> set shown"
  by (auto simp add: gregorian_to_jalali_card_def show_convert_card_def split: sum.splits)

lemma parse_gregorian_matched:
  assumes "fullmatch nd date_pattern (normalize_sep s)"
  shows "parse_gregorian nd s \<noteq> Inl InvalidFormat"
proof -
  obtain y m d where "map_int nd (split 45 (normalize_sep s)) = Inr [y, m, d]"
    using parts_of_match[OF assms] by blast
  then have "parse_gregorian nd s = mk_date y m d"
    using assms by (simp add: parse_gregorian_def unpack3_def)
  then show ?thesis
    using mk_date_error[of y m d InvalidFormat] by auto
qed

subsection \<open>The date a flow works with\<close>

text \<open>
  Whatever the clock and the network say, the year of the date returned is plausible: the
  fallback itself lies in the window. So the test \<^verbatim>\<open>not plausible_year(today.year)\<close> of the
  two age flows never holds, and the warning about the fallback is never printed.
\<close>

lemma get_current_date_plausible:
  "plausible_year (year (get_current_date local_today attempts))"
  by (simp add: get_current_date_def plausible_year_def Let_def split: option.splits)

lemma announce_today_never_warns:
  "announce_today w = (today, ps, f) \<Longrightarrow> Message FALLBACK_WARN \<notin> set ps"
  using get_current_date_plausible[of "clock w" "network w"]
  by (auto simp add: announce_today_def Let_def split: option.splits if_splits)

subsection \<open>A run of the Gregorian age flow\<close>

text \<open>
  Without a backend, with a clock that reads 2025-10-18, the birthdate typed in Persian
  digits and slashes and then \<^verbatim>\<open>n\<close>: the card has the Gregorian lines only, and the flow
  returns.
\<close>

lemma calculate_age_gregorian_flow_example:
  "calculate_age_gregorian_flow
       \<lparr>decimal = \<lambda>c. None, lower_other = \<lambda>s. s, jalali = NoBackend,
        clock = Some \<lparr>year = 2025, month = 10, day = 18\<rparr>, network = []\<rparr>
       [[1777, 1785, 1785, 1776, 47, 55, 47, 49, 53], [110]]
     = ([Title AGE_CARD,
         Line BIRTH_G (Greg \<lparr>year = 1990, month = 7, day = 15\<rparr>),
         Line TODAY_G (Greg \<lparr>year = 2025, month = 10, day = 18\<rparr>),
         Line AGE (Years_months_days (35, 3, 3)),
         Line NEXT_BD (Greg \<lparr>year = 2026, month = 7, day = 15\<rparr>),
         Line IN_DAYS (Days 270), Box_bottom], [], Returned)"
  by (simp add: calculate_age_gregorian_flow_def age_flow_def announce_today_def
      get_current_date_def plausible_year_def is_back_def lower_def is_yes_def
      normalize_digits_def translate_def P2L_DIGITS_def age_of_def age_ymd_def
      borrow_days_def borrow_months_def days_until_next_birthday_def next_birthday_after_def
      safe_date_def monthrange_def date_diff_days_def toordinal_def days_before_year_def
      days_before_month_def DAYS_BEFORE_MONTH_def show_age_card_def jalali_mirrors_def
      next_birthday_lines_def JALALI_OK_def after_def parse_eval date_eval)

section \<open>Claims about the age arithmetic\<close>

text \<open>
  C3. \<^verbatim>\<open>age_ymd(born, today)\<close> fails with the future-birthdate error exactly when
  \<^verbatim>\<open>born > today\<close>; for \<^verbatim>\<open>born <= today\<close> it returns a triple.
\<close>

theorem age_ymd_future_birthdate:
  assumes "valid_date today"
  shows "(age_ymd born today = Inl FutureBirthdate \<longleftrightarrow> date_lt today born) \<and>
         (date_le born today \<longrightarrow> (\<exists>y m d. age_ymd born today = Inr (y, m, d)))"
proof -
  obtain t where t: "borrow_days today
        (year today - year born, month today - month born, day today - day born) = Inr t"
    using borrow_days_total[OF assms] by blast
  obtain y m d where "borrow_months t = (y, m, d)"
    by (cases "borrow_months t")
  with t show ?thesis
    by (simp add: age_ymd_def date_le_iff_not_lt)
qed

theorem age_ymd_future_birthdate_witness:
  "valid_date \<lparr>year = 2025, month = 1, day = 1\<rparr> \<and>
   date_lt \<lparr>year = 2025, month = 1, day = 1\<rparr> \<lparr>year = 2030, month = 1, day = 1\<rparr> \<and>
   age_ymd \<lparr>year = 2030, month = 1, day = 1\<rparr> \<lparr>year = 2025, month = 1, day = 1\<rparr>
     = Inl FutureBirthdate \<and>
   date_le \<lparr>year = 1990, month = 7, day = 15\<rparr> \<lparr>year = 2025, month = 1, day = 1\<rparr> \<and>
   (\<exists>y m d. age_ymd \<lparr>year = 1990, month = 7, day = 15\<rparr> \<lparr>year = 2025, month = 1, day = 1\<rparr>
      = Inr (y, m, d))"
proof -
  have v: "valid_date \<lparr>year = 2025, month = 1, day = 1\<rparr>"
    by (simp add: valid_date_def mk_date_def MINYEAR_def MAXYEAR_def days_in_month_def mdays_def)
  show ?thesis
    using v age_ymd_future_birthdate[OF v, of "\<lparr>year = 2030, month = 1, day = 1\<rparr>"]
      age_ymd_future_birthdate[OF v, of "\<lparr>year = 1990, month = 7, day = 15\<rparr>"]
    by (simp add: date_lt_def date_le_def)
qed

text \<open>
  C2. \<^verbatim>\<open>age_ymd\<close> borrows the length of the month before today's month when the day
  difference is negative. Born on 2025-01-31 and seen on 2025-03-01, the borrowed month is
  February 2025 with 28 days, so the day difference \<open>1 - 31 = -30\<close> is still negative after
  the borrow: the age comes out as 0 years, 1 month and -2 days.
\<close>

theorem age_ymd_negative_days:
  "age_ymd \<lparr>year = 2025, month = 1, day = 31\<rparr> \<lparr>year = 2025, month = 3, day = 1\<rparr>
     = Inr (0, 1, - 2)"
  by (simp add: age_ymd_def date_lt_def borrow_days_def borrow_months_def monthrange_def
      mdays_def isleap_def)

text \<open>The same input is inside the domain of the claim: two dates, the first not later.\<close>

theorem age_ymd_negative_days_witness:
  "valid_date \<lparr>year = 2025, month = 1, day = 31\<rparr> \<and>
   valid_date \<lparr>year = 2025, month = 3, day = 1\<rparr> \<and>
   date_le \<lparr>year = 2025, month = 1, day = 31\<rparr> \<lparr>year = 2025, month = 3, day = 1\<rparr> \<and>
   (case age_ymd \<lparr>year = 2025, month = 1, day = 31\<rparr> \<lparr>year = 2025, month = 3, day = 1\<rparr> of
      Inl e \<Rightarrow> False | Inr (y, m, d) \<Rightarrow> d < 0)"
  using age_ymd_negative_days
  by (simp add: valid_date_def mk_date_def MINYEAR_def MAXYEAR_def days_in_month_def mdays_def
      isleap_def date_le_def)

section \<open>Claims about the next birthday\<close>

text \<open>
  C4, as the claim states it: a birthdate on 29 February and today 2025-03-01 are said to
  give 2025-02-28. The candidate of 2025 is indeed 2025-02-28, but it is not later than
  today, so the function goes on to the candidate of 2026.
\<close>

theorem next_birthday_after_feb29_counterexample:
  "next_birthday_after \<lparr>year = 2000, month = 2, day = 29\<rparr> \<lparr>year = 2025, month = 3, day = 1\<rparr>
     \<noteq> Inr \<lparr>year = 2025, month = 2, day = 28\<rparr>"
  by (simp add: next_birthday_after_def safe_date_def monthrange_def mk_date_def MINYEAR_def
      MAXYEAR_def days_in_month_def mdays_def isleap_def date_le_def)

text \<open>
  C4, amended. For dates \<open>born\<close> and \<open>today\<close>, the candidate is the birthday's month and
  day in today's year, the day clamped to the last day of the month; when the candidate is
  not later than today the result is the candidate of the next year, which the date type
  has only while today's year is below 9999. Every date returned is strictly later than
  today. Born 2000-02-29 and today 2025-03-01 give 2026-02-28.
\<close>

theorem next_birthday_after_construction:
  assumes "valid_date born" and "valid_date today"
  shows "next_birthday_after born today =
           (if date_le (observance born (year today)) today
            then (if year today < 9999 then Inr (observance born (year today + 1))
                  else Inl InvalidCalendarDate)
            else Inr (observance born (year today))) \<and>
         (\<forall>c. next_birthday_after born today = Inr c \<longrightarrow> date_lt today c) \<and>
         next_birthday_after \<lparr>year = 2000, month = 2, day = 29\<rparr>
             \<lparr>year = 2025, month = 3, day = 1\<rparr>
           = Inr \<lparr>year = 2026, month = 2, day = 28\<rparr>"
proof (intro conjI allI impI)
  show "next_birthday_after born today =
           (if date_le (observance born (year today)) today
            then (if year today < 9999 then Inr (observance born (year today + 1))
                  else Inl InvalidCalendarDate)
            else Inr (observance born (year today)))"
    by (rule next_birthday_after_eq[OF assms])
next
  fix c
  assume "next_birthday_after born today = Inr c"
  then show "date_lt today c"
    using next_birthday_after_later[OF assms] by blast
next
  show "next_birthday_after \<lparr>year = 2000, month = 2, day = 29\<rparr>
             \<lparr>year = 2025, month = 3, day = 1\<rparr>
           = Inr \<lparr>year = 2026, month = 2, day = 28\<rparr>"
    by (simp add: next_birthday_after_def safe_date_def monthrange_def mk_date_def MINYEAR_def
        MAXYEAR_def days_in_month_def mdays_def isleap_def date_le_def)
qed

theorem next_birthday_after_construction_witness:
  "valid_date \<lparr>year = 2000, month = 2, day = 29\<rparr> \<and>
   valid_date \<lparr>year = 2025, month = 2, day = 27\<rparr> \<and>
   next_birthday_after \<lparr>year = 2000, month = 2, day = 29\<rparr> \<lparr>year = 2025, month = 2, day = 27\<rparr>
     = Inr \<lparr>year = 2025, month = 2, day = 28\<rparr> \<and>
   date_lt \<lparr>year = 2025, month = 2, day = 27\<rparr> \<lparr>year = 2025, month = 2, day = 28\<rparr>"
proof -
  have b: "valid_date \<lparr>year = 2000, month = 2, day = 29\<rparr>"
    by (simp add: date_eval)
  have t: "valid_date \<lparr>year = 2025, month = 2, day = 27\<rparr>"
    by (simp add: date_eval)
  show ?thesis
    using b t next_birthday_after_construction[OF b t]
    by (simp add: date_eval)
qed

text \<open>
  C5. \<^verbatim>\<open>days_until_next_birthday(born, today)\<close> is the difference of the ordinals of
  \<^verbatim>\<open>next_birthday_after(born, today)\<close> and of today (what \<^verbatim>\<open>(a - b).days\<close> is), it fails
  exactly as \<^verbatim>\<open>next_birthday_after\<close> does, every value it returns is at least 0, and it
  returns while today's year is below 9999.
\<close>

theorem days_until_next_birthday_nonneg:
  assumes "valid_date born" and "valid_date today"
  shows "days_until_next_birthday born today =
           (case next_birthday_after born today of
              Inl e \<Rightarrow> Inl e
            | Inr nb \<Rightarrow> Inr (toordinal nb - toordinal today)) \<and>
         (\<forall>n. days_until_next_birthday born today = Inr n \<longrightarrow> 0 \<le> n) \<and>
         (year today < 9999 \<longrightarrow> (\<exists>n. days_until_next_birthday born today = Inr n))"
proof (intro conjI allI impI)
  show "days_until_next_birthday born today =
           (case next_birthday_after born today of
              Inl e \<Rightarrow> Inl e
            | Inr nb \<Rightarrow> Inr (toordinal nb - toordinal today))"
    by (simp add: days_until_next_birthday_def date_diff_days_def split: sum.splits)
next
  fix n
  assume "days_until_next_birthday born today = Inr n"
  then have "1 \<le> n" by (rule days_until_next_birthday_pos[OF assms])
  then show "0 \<le> n" by simp
next
  assume "year today < 9999"
  then show "\<exists>n. days_until_next_birthday born today = Inr n"
    by (rule days_until_next_birthday_returns[OF assms])
qed

theorem days_until_next_birthday_nonneg_witness:
  "valid_date \<lparr>year = 1990, month = 7, day = 15\<rparr> \<and>
   valid_date \<lparr>year = 2025, month = 10, day = 18\<rparr> \<and>
   next_birthday_after \<lparr>year = 1990, month = 7, day = 15\<rparr> \<lparr>year = 2025, month = 10, day = 18\<rparr>
     = Inr \<lparr>year = 2026, month = 7, day = 15\<rparr> \<and>
   days_until_next_birthday \<lparr>year = 1990, month = 7, day = 15\<rparr>
       \<lparr>year = 2025, month = 10, day = 18\<rparr>
     = Inr 270 \<and> (0::int) \<le> 270 \<and> (2025::int) < 9999"
proof -
  have b: "valid_date \<lparr>year = 1990, month = 7, day = 15\<rparr>"
    by (simp add: date_eval)
  have t: "valid_date \<lparr>year = 2025, month = 10, day = 18\<rparr>"
    by (simp add: date_eval)
  have n: "next_birthday_after \<lparr>year = 1990, month = 7, day = 15\<rparr>
      \<lparr>year = 2025, month = 10, day = 18\<rparr> = Inr \<lparr>year = 2026, month = 7, day = 15\<rparr>"
    by (simp add: next_birthday_after_eq[OF b t] date_eval)
  have o: "toordinal \<lparr>year = 2026, month = 7, day = 15\<rparr>
             - toordinal \<lparr>year = 2025, month = 10, day = 18\<rparr> = 270"
    by (simp add: toordinal_def days_before_year_def days_before_month_def
        DAYS_BEFORE_MONTH_def isleap_def)
  show ?thesis
    using b t days_until_next_birthday_nonneg[OF b t]
    by (simp add: n o)
qed

text \<open>
  C10, as the claim states it: born 2000-06-01 and today 9999-06-01, the birthday itself in
  the last year a date can hold. The claim has the observance of the year after returned;
  the code builds \<^verbatim>\<open>date(10000, 6, 1)\<close>, which raises.
\<close>

theorem days_until_next_birthday_last_year_counterexample:
  "date_le \<lparr>year = 2000, month = 6, day = 1\<rparr> \<lparr>year = 9999, month = 6, day = 1\<rparr> \<and>
   next_birthday_after \<lparr>year = 2000, month = 6, day = 1\<rparr> \<lparr>year = 9999, month = 6, day = 1\<rparr>
     = Inl InvalidCalendarDate \<and>
   days_until_next_birthday \<lparr>year = 2000, month = 6, day = 1\<rparr> \<lparr>year = 9999, month = 6, day = 1\<rparr>
     = Inl InvalidCalendarDate"
  by (simp add: days_until_next_birthday_def next_birthday_after_def safe_date_def
      monthrange_def mk_date_def MINYEAR_def MAXYEAR_def days_in_month_def mdays_def isleap_def
      date_le_def)

text \<open>
  C10, amended. For \<open>born\<close> not later than \<open>today\<close> and today's year below 9999,
  \<^verbatim>\<open>days_until_next_birthday\<close> returns a number that is at least 1; when today is the
  (clamped) observance of the birthday in today's year, \<^verbatim>\<open>next_birthday_after\<close> returns the
  observance of the next year.
\<close>

theorem days_until_next_birthday_positive:
  assumes "valid_date born" and "valid_date today" and "date_le born today"
    and "year today < 9999"
  shows "(\<exists>n. days_until_next_birthday born today = Inr n \<and> 1 \<le> n) \<and>
         (today = observance born (year today) \<longrightarrow>
            next_birthday_after born today = Inr (observance born (year today + 1)))"
proof (intro conjI impI)
  obtain n where n: "days_until_next_birthday born today = Inr n"
    using days_until_next_birthday_returns[OF assms(1,2,4)] by blast
  then have "1 \<le> n" by (rule days_until_next_birthday_pos[OF assms(1,2)])
  with n show "\<exists>n. days_until_next_birthday born today = Inr n \<and> 1 \<le> n" by blast
next
  assume "today = observance born (year today)"
  then have "date_le (observance born (year today)) today"
    by (simp add: date_le_def)
  then show "next_birthday_after born today = Inr (observance born (year today + 1))"
    using assms(4) by (simp add: next_birthday_after_eq[OF assms(1,2)])
qed

theorem days_until_next_birthday_positive_witness:
  "valid_date \<lparr>year = 2000, month = 2, day = 29\<rparr> \<and>
   valid_date \<lparr>year = 2025, month = 2, day = 28\<rparr> \<and>
   date_le \<lparr>year = 2000, month = 2, day = 29\<rparr> \<lparr>year = 2025, month = 2, day = 28\<rparr> \<and>
   (2025::int) < 9999 \<and>
   \<lparr>year = 2025, month = 2, day = 28\<rparr>
     = observance \<lparr>year = 2000, month = 2, day = 29\<rparr> 2025 \<and>
   next_birthday_after \<lparr>year = 2000, month = 2, day = 29\<rparr> \<lparr>year = 2025, month = 2, day = 28\<rparr>
     = Inr \<lparr>year = 2026, month = 2, day = 28\<rparr> \<and>
   (\<exists>n. days_until_next_birthday \<lparr>year = 2000, month = 2, day = 29\<rparr>
           \<lparr>year = 2025, month = 2, day = 28\<rparr> = Inr n \<and> 1 \<le> n)"
proof -
  have b: "valid_date \<lparr>year = 2000, month = 2, day = 29\<rparr>"
    by (simp add: date_eval)
  have t: "valid_date \<lparr>year = 2025, month = 2, day = 28\<rparr>"
    by (simp add: date_eval)
  have l: "date_le \<lparr>year = 2000, month = 2, day = 29\<rparr> \<lparr>year = 2025, month = 2, day = 28\<rparr>"
    by (simp add: date_eval)
  have y: "year \<lparr>year = 2025, month = 2, day = 28\<rparr> < 9999"
    by simp
  have o: "\<lparr>year = 2025, month = 2, day = 28\<rparr>
             = observance \<lparr>year = 2000, month = 2, day = 29\<rparr> 2025"
    by (simp add: date_eval)
  have r: "(\<exists>n. days_until_next_birthday \<lparr>year = 2000, month = 2, day = 29\<rparr>
                \<lparr>year = 2025, month = 2, day = 28\<rparr> = Inr n \<and> 1 \<le> n) \<and>
           next_birthday_after \<lparr>year = 2000, month = 2, day = 29\<rparr>
               \<lparr>year = 2025, month = 2, day = 28\<rparr>
             = Inr \<lparr>year = 2026, month = 2, day = 28\<rparr>"
    using days_until_next_birthday_positive[OF b t l y] by (simp add: date_eval)
  show ?thesis
    using b t l r by (simp add: o[symmetric])
qed

section \<open>Claims about the current date\<close>

text \<open>
  C8, as the claim states it: the result is said to tell which branch was taken. A local
  clock that reads 2000-01-01 is trusted (branch local); a local clock in 1969 with no
  answer from the network ends in the fallback; the function returns the same value in
  both cases, a date without any tag.
\<close>

theorem get_current_date_untagged_counterexample:
  "branch_taken (Some \<lparr>year = 2000, month = 1, day = 1\<rparr>) [] = Local \<and>
   branch_taken (Some \<lparr>year = 1969, month = 7, day = 20\<rparr>) [] = Fallback \<and>
   get_current_date (Some \<lparr>year = 2000, month = 1, day = 1\<rparr>) []
     = get_current_date (Some \<lparr>year = 1969, month = 7, day = 20\<rparr>) []"
  by (simp add: branch_taken_def get_current_date_def plausible_year_def)

text \<open>
  C8, amended. \<^verbatim>\<open>get_current_date\<close> returns the local date when its year is within
  1970..2100, otherwise the date fetched online when there is one and its year is
  plausible, otherwise 2000-01-01, and it returns that date alone. With a local clock in
  1969 and every request failing, the result is 2000-01-01.
\<close>

theorem get_current_date_order:
  "(trusted local_today \<longrightarrow> Some (get_current_date local_today attempts) = local_today) \<and>
   (\<not> trusted local_today \<and> trusted (fetch_online_date attempts) \<longrightarrow>
      Some (get_current_date local_today attempts) = fetch_online_date attempts) \<and>
   (\<not> trusted local_today \<and> \<not> trusted (fetch_online_date attempts) \<longrightarrow>
      get_current_date local_today attempts = \<lparr>year = 2000, month = 1, day = 1\<rparr>) \<and>
   (year local_today' = 1969 \<and> fetch_online_date attempts' = None \<longrightarrow>
      get_current_date (Some local_today') attempts' = \<lparr>year = 2000, month = 1, day = 1\<rparr>)"
  by (auto simp add: get_current_date_def trusted_def plausible_year_def Let_def
      split: option.splits)

theorem get_current_date_order_witness:
  "trusted (Some \<lparr>year = 2025, month = 10, day = 18\<rparr>) \<and>
   get_current_date (Some \<lparr>year = 2025, month = 10, day = 18\<rparr>) [None]
     = \<lparr>year = 2025, month = 10, day = 18\<rparr> \<and>
   \<not> trusted (Some \<lparr>year = 1969, month = 7, day = 20\<rparr>) \<and>
   trusted (fetch_online_date [None, Some \<lparr>year = 2025, month = 10, day = 18\<rparr>]) \<and>
   get_current_date (Some \<lparr>year = 1969, month = 7, day = 20\<rparr>)
       [None, Some \<lparr>year = 2025, month = 10, day = 18\<rparr>]
     = \<lparr>year = 2025, month = 10, day = 18\<rparr> \<and>
   \<not> trusted (fetch_online_date [None, None, None, None]) \<and>
   fetch_online_date [None, None, None, None] = None \<and>
   get_current_date (Some \<lparr>year = 1969, month = 7, day = 20\<rparr>) [None, None, None, None]
     = \<lparr>year = 2000, month = 1, day = 1\<rparr>"
  using get_current_date_order[of "Some \<lparr>year = 2025, month = 10, day = 18\<rparr>" "[None]"]
    get_current_date_order[of "Some \<lparr>year = 1969, month = 7, day = 20\<rparr>"
      "[None, Some \<lparr>year = 2025, month = 10, day = 18\<rparr>]"]
    get_current_date_order[of "Some \<lparr>year = 1969, month = 7, day = 20\<rparr>"
      "[None, None, None, None]" "\<lparr>year = 1969, month = 7, day = 20\<rparr>"
      "[None, None, None, None]"]
  by (simp add: trusted_def plausible_year_def)

section \<open>Claims about the parsers\<close>

text \<open>
  C6. \<^verbatim>\<open>normalize_digits\<close> turns every Persian digit and every Arabic-Indic digit into the
  ASCII digit of the same value and leaves every other character as it is, and
  \<^verbatim>\<open>parse_gregorian\<close> gives the same result on a text and on its normalised form, so the
  non-Latin digits are read as the ASCII digits they are normalised to; \<^verbatim>\<open>/\<close> and \<^verbatim>\<open>.\<close> are
  read as \<^verbatim>\<open>-\<close>. A text that, stripped and with its separators normalised, does not match
  \<^verbatim>\<open>\d{4}-\d{1,2}-\d{1,2}\<close> entirely fails with \<open>InvalidFormat\<close>; a text that matches has
  three numbers, and the result is the date of these numbers, or \<open>InvalidCalendarDate\<close>
  exactly when they are no date of the Gregorian calendar. The Persian text of 1370-04-24
  is normalised to the ASCII text and parses as it does.
\<close>

theorem parse_gregorian_spec:
  "normalize_digits s =
     map (\<lambda>c. if 1776 \<le> c \<and> c \<le> 1785 then 48 + (c - 1776)
              else if 1632 \<le> c \<and> c \<le> 1641 then 48 + (c - 1632) else c) s \<and>
   parse_gregorian nd (normalize_digits s) = parse_gregorian nd s \<and>
   parse_gregorian nd (map (\<lambda>c. if c = 47 \<or> c = 46 then 45 else c) s) = parse_gregorian nd s \<and>
   (\<not> fullmatch nd date_pattern (normalize_sep s) \<longrightarrow> parse_gregorian nd s = Inl InvalidFormat) \<and>
   (fullmatch nd date_pattern (normalize_sep s) \<longrightarrow>
      (\<exists>y m d. map_int nd (split 45 (normalize_sep s)) = Inr [y, m, d] \<and>
         parse_gregorian nd s = mk_date y m d \<and>
         ((parse_gregorian nd s = Inl InvalidCalendarDate) =
            (\<not> (1 \<le> y \<and> y \<le> 9999 \<and> 1 \<le> m \<and> m \<le> 12 \<and> 1 \<le> d \<and> d \<le> days_in_month y m))))) \<and>
   normalize_digits [1777, 1779, 1783, 1776, 45, 1776, 1780, 45, 1778, 1780]
     = [49, 51, 55, 48, 45, 48, 52, 45, 50, 52] \<and>
   parse_gregorian nd [1777, 1779, 1783, 1776, 45, 1776, 1780, 45, 1778, 1780]
     = parse_gregorian nd [49, 51, 55, 48, 45, 48, 52, 45, 50, 52] \<and>
   parse_gregorian nd [49, 51, 55, 48, 45, 48, 52, 45, 50, 52]
     = Inr \<lparr>year = 1370, month = 4, day = 24\<rparr>"
proof (intro conjI impI)
  show "normalize_digits s =
     map (\<lambda>c. if 1776 \<le> c \<and> c \<le> 1785 then 48 + (c - 1776)
              else if 1632 \<le> c \<and> c \<le> 1641 then 48 + (c - 1632) else c) s"
    by (rule normalize_digits_eq)
next
  show "parse_gregorian nd (normalize_digits s) = parse_gregorian nd s"
    by (rule parse_gregorian_normalize_digits)
next
  show "parse_gregorian nd (map (\<lambda>c. if c = 47 \<or> c = 46 then 45 else c) s)
          = parse_gregorian nd s"
    by (simp add: parse_gregorian_def normalize_sep_separators)
next
  assume "\<not> fullmatch nd date_pattern (normalize_sep s)"
  then show "parse_gregorian nd s = Inl InvalidFormat"
    by (simp add: parse_gregorian_def)
next
  assume m: "fullmatch nd date_pattern (normalize_sep s)"
  then obtain y m d where p: "map_int nd (split 45 (normalize_sep s)) = Inr [y, m, d]"
    using parts_of_match by blast
  have r: "parse_gregorian nd s = mk_date y m d"
    using m p by (simp add: parse_gregorian_def unpack3_def)
  have "(mk_date y m d = Inl InvalidCalendarDate) =
          (\<not> (1 \<le> y \<and> y \<le> 9999 \<and> 1 \<le> m \<and> m \<le> 12 \<and> 1 \<le> d \<and> d \<le> days_in_month y m))"
    by (auto simp add: mk_date_def MINYEAR_def MAXYEAR_def)
  with p r show "\<exists>y m d. map_int nd (split 45 (normalize_sep s)) = Inr [y, m, d] \<and>
         parse_gregorian nd s = mk_date y m d \<and>
         ((parse_gregorian nd s = Inl InvalidCalendarDate) =
            (\<not> (1 \<le> y \<and> y \<le> 9999 \<and> 1 \<le> m \<and> m \<le> 12 \<and> 1 \<le> d \<and> d \<le> days_in_month y m)))"
    by auto
next
  show n: "normalize_digits [1777, 1779, 1783, 1776, 45, 1776, 1780, 45, 1778, 1780]
          = [49, 51, 55, 48, 45, 48, 52, 45, 50, 52]"
    by (simp add: normalize_digits_eq)
  show "parse_gregorian nd [1777, 1779, 1783, 1776, 45, 1776, 1780, 45, 1778, 1780]
     = parse_gregorian nd [49, 51, 55, 48, 45, 48, 52, 45, 50, 52]"
    using parse_gregorian_normalize_digits[of nd
        "[1777, 1779, 1783, 1776, 45, 1776, 1780, 45, 1778, 1780]"]
    unfolding n by simp
next
  show "parse_gregorian nd [49, 51, 55, 48, 45, 48, 52, 45, 50, 52]
          = Inr \<lparr>year = 1370, month = 4, day = 24\<rparr>"
    by (simp add: parse_eval date_eval)
qed

text \<open>
  The witness reads three texts with no digits beyond the three scripts: \<^verbatim>\<open>2025-1\<close>, which
  does not match; \<^verbatim>\<open>2025/13/01\<close> in Arabic-Indic digits, which is normalised to ASCII
  digits, matches and has no month 13; and \<^verbatim>\<open>2025.02.30\<close>, which matches and is no day of
  February.
\<close>

theorem parse_gregorian_spec_witness:
  "\<not> fullmatch no_other_digits date_pattern (normalize_sep [50, 48, 50, 53, 45, 49]) \<and>
   parse_gregorian no_other_digits [50, 48, 50, 53, 45, 49] = Inl InvalidFormat \<and>
   normalize_digits [1634, 1632, 1634, 1637, 47, 1633, 1635, 47, 1632, 1633]
     = [50, 48, 50, 53, 47, 49, 51, 47, 48, 49] \<and>
   fullmatch no_other_digits date_pattern
     (normalize_sep [50, 48, 50, 53, 47, 49, 51, 47, 48, 49]) \<and>
   parse_gregorian no_other_digits [50, 48, 50, 53, 47, 49, 51, 47, 48, 49]
     = Inl InvalidCalendarDate \<and>
   parse_gregorian no_other_digits [1634, 1632, 1634, 1637, 47, 1633, 1635, 47, 1632, 1633]
     = Inl InvalidCalendarDate \<and>
   fullmatch no_other_digits date_pattern
     (normalize_sep [50, 48, 50, 53, 46, 48, 50, 46, 51, 48]) \<and>
   parse_gregorian no_other_digits [50, 48, 50, 53, 46, 48, 50, 46, 51, 48]
     = Inl InvalidCalendarDate"
proof -
  have a: "\<not> fullmatch no_other_digits date_pattern (normalize_sep [50, 48, 50, 53, 45, 49])"
    by (simp add: parse_eval no_other_digits_def)
  have b: "fullmatch no_other_digits date_pattern
             (normalize_sep [50, 48, 50, 53, 47, 49, 51, 47, 48, 49])"
    by (simp add: parse_eval no_other_digits_def)
  have b': "map_int no_other_digits
              (split 45 (normalize_sep [50, 48, 50, 53, 47, 49, 51, 47, 48, 49]))
              = Inr [2025, 13, 1]"
    by (simp add: parse_eval no_other_digits_def)
  have c: "fullmatch no_other_digits date_pattern
             (normalize_sep [50, 48, 50, 53, 46, 48, 50, 46, 51, 48])"
    by (simp add: parse_eval no_other_digits_def)
  have c': "map_int no_other_digits
              (split 45 (normalize_sep [50, 48, 50, 53, 46, 48, 50, 46, 51, 48]))
              = Inr [2025, 2, 30]"
    by (simp add: parse_eval no_other_digits_def)
  have n: "normalize_digits [1634, 1632, 1634, 1637, 47, 1633, 1635, 47, 1632, 1633]
             = [50, 48, 50, 53, 47, 49, 51, 47, 48, 49]"
    using parse_gregorian_spec[of "[1634, 1632, 1634, 1637, 47, 1633, 1635, 47, 1632, 1633]"]
    by simp
  have g: "parse_gregorian no_other_digits [50, 48, 50, 53, 47, 49, 51, 47, 48, 49]
             = Inl InvalidCalendarDate"
    using b parse_gregorian_spec[of "[50, 48, 50, 53, 47, 49, 51, 47, 48, 49]" no_other_digits]
    by (simp add: b' date_eval)
  have g': "parse_gregorian no_other_digits
              [1634, 1632, 1634, 1637, 47, 1633, 1635, 47, 1632, 1633]
             = Inl InvalidCalendarDate"
    using parse_gregorian_spec[of "[1634, 1632, 1634, 1637, 47, 1633, 1635, 47, 1632, 1633]"
        no_other_digits]
    unfolding n g by simp
  show ?thesis
    using a b c n g g'
      parse_gregorian_spec[of "[50, 48, 50, 53, 45, 49]" no_other_digits]
      parse_gregorian_spec[of "[50, 48, 50, 53, 46, 48, 50, 46, 51, 48]" no_other_digits]
    by (simp add: c' date_eval)
qed

text \<open>
  C7, as the claim states it: a triple that is no Jalali date is said to fail inside
  \<^verbatim>\<open>jtuple_to_gdate\<close>. The text \<^verbatim>\<open>1400-13-40\<close> is parsed to the triple (1400, 13, 40), which
  has no month of the Jalali calendar; \<^verbatim>\<open>jtuple_to_gdate\<close> checks nothing itself, and with a
  backend of the \<^verbatim>\<open>convertdate\<close> kind that answers every triple with numbers it returns a
  date.
\<close>

theorem jtuple_to_gdate_unchecked_counterexample:
  "parse_jalali_tuple no_other_digits [49, 52, 48, 48, 45, 49, 51, 45, 52, 48]
     = Inr [1400, 13, 40] \<and>
   \<not> structurally_jalali 1400 13 40 \<and>
   jtuple_to_gdate unchecked_backend 1400 13 40 = Inr \<lparr>year = 2021, month = 3, day = 21\<rparr>"
  by (simp add: parse_eval no_other_digits_def structurally_jalali_def jalali_month_days_def
      jtuple_to_gdate_def unchecked_backend_def unchecked_to_gregorian_def raised_def date_eval)

text \<open>
  C7, amended. \<^verbatim>\<open>parse_jalali_tuple\<close> makes the same check of the same normalised text as
  \<^verbatim>\<open>parse_gregorian\<close>, which is \<^verbatim>\<open>parse_jalali_tuple\<close> followed by the construction of a
  date; on every text that matches it returns the three numbers as they are written, and
  it never fails for the calendar. The flows hand the three numbers to \<^verbatim>\<open>jtuple_to_gdate\<close>
  as they are, and with a backend present a matching text can fail only there and only
  with \<open>InvalidCalendarDate\<close>; whether it does is left to the backend.
\<close>

theorem parse_jalali_tuple_defers_validation:
  "(parse_jalali_tuple nd s = Inl InvalidFormat) = (\<not> fullmatch nd date_pattern (normalize_sep s)) \<and>
   (parse_gregorian nd s = Inl InvalidFormat) = (\<not> fullmatch nd date_pattern (normalize_sep s)) \<and>
   parse_gregorian nd s =
     (case parse_jalali_tuple nd s of
        Inl e \<Rightarrow> Inl e
      | Inr t \<Rightarrow> (case unpack3 t of Inl e \<Rightarrow> Inl e | Inr (y, m, d) \<Rightarrow> mk_date y m d)) \<and>
   parse_jalali_tuple nd (normalize_digits s) = parse_jalali_tuple nd s \<and>
   parse_jalali_tuple nd s \<noteq> Inl InvalidCalendarDate \<and>
   (fullmatch nd date_pattern (normalize_sep s) \<longrightarrow>
      (\<exists>jy jm jd. parse_jalali_tuple nd s = Inr [jy, jm, jd] \<and>
         map_int nd (split 45 (normalize_sep s)) = Inr [jy, jm, jd] \<and>
         parse_gregorian nd s = mk_date jy jm jd \<and>
         (decimal w = nd \<longrightarrow>
            jalali_birthdate w s = jtuple_to_gdate (jalali w) jy jm jd \<and>
            (JALALI_OK (jalali w) \<longrightarrow>
               (\<forall>e. jalali_birthdate w s = Inl e \<longrightarrow> e = InvalidCalendarDate)))))"
proof (intro conjI impI)
  show "(parse_jalali_tuple nd s = Inl InvalidFormat)
          = (\<not> fullmatch nd date_pattern (normalize_sep s))"
    using parts_of_match[of nd "normalize_sep s"] by (auto simp add: parse_jalali_tuple_def)
next
  show "(parse_gregorian nd s = Inl InvalidFormat)
          = (\<not> fullmatch nd date_pattern (normalize_sep s))"
    using parse_gregorian_matched[of nd s]
    by (auto simp add: parse_gregorian_def)
next
  show "parse_gregorian nd s =
     (case parse_jalali_tuple nd s of
        Inl e \<Rightarrow> Inl e
      | Inr t \<Rightarrow> (case unpack3 t of Inl e \<Rightarrow> Inl e | Inr (y, m, d) \<Rightarrow> mk_date y m d))"
    by (simp add: parse_gregorian_def parse_jalali_tuple_def Let_def)
next
  show "parse_jalali_tuple nd (normalize_digits s) = parse_jalali_tuple nd s"
    by (rule parse_jalali_tuple_normalize_digits)
next
  show "parse_jalali_tuple nd s \<noteq> Inl InvalidCalendarDate"
    using parse_jalali_tuple_error[of nd s InvalidCalendarDate] by auto
next
  assume m: "fullmatch nd date_pattern (normalize_sep s)"
  then obtain jy jm jd where p: "map_int nd (split 45 (normalize_sep s)) = Inr [jy, jm, jd]"
    using parts_of_match by blast
  have j: "parse_jalali_tuple nd s = Inr [jy, jm, jd]"
    using m p by (simp add: parse_jalali_tuple_def)
  have g: "parse_gregorian nd s = mk_date jy jm jd"
    using m p by (simp add: parse_gregorian_def unpack3_def)
  have f: "jalali_birthdate w s = jtuple_to_gdate (jalali w) jy jm jd" if "decimal w = nd"
    using j that by (simp add: jalali_birthdate_def unpack3_def)
  have r: "e = InvalidCalendarDate"
    if "decimal w = nd" and "JALALI_OK (jalali w)" and "jalali_birthdate w s = Inl e" for e
    using that f jtuple_to_gdate_error[of "jalali w" jy jm jd e]
    by (auto simp add: JALALI_OK_iff)
  show "\<exists>jy jm jd. parse_jalali_tuple nd s = Inr [jy, jm, jd] \<and>
         map_int nd (split 45 (normalize_sep s)) = Inr [jy, jm, jd] \<and>
         parse_gregorian nd s = mk_date jy jm jd \<and>
         (decimal w = nd \<longrightarrow>
            jalali_birthdate w s = jtuple_to_gdate (jalali w) jy jm jd \<and>
            (JALALI_OK (jalali w) \<longrightarrow>
               (\<forall>e. jalali_birthdate w s = Inl e \<longrightarrow> e = InvalidCalendarDate)))"
    using p j g f r by blast
qed

text \<open>
  The witness is the text \<^verbatim>\<open>1400-13-40\<close> again, with a backend of the \<^verbatim>\<open>jdatetime\<close> kind
  that raises for numbers that are no Jalali date: the parser returns the triple, the
  Gregorian parser refuses the same text, and the step of the flow fails in the
  conversion.
\<close>

theorem parse_jalali_tuple_defers_validation_witness:
  "fullmatch no_other_digits date_pattern
     (normalize_sep [49, 52, 48, 48, 45, 49, 51, 45, 52, 48]) \<and>
   parse_jalali_tuple no_other_digits [49, 52, 48, 48, 45, 49, 51, 45, 52, 48]
     = Inr [1400, 13, 40] \<and>
   \<not> structurally_jalali 1400 13 40 \<and>
   parse_gregorian no_other_digits [49, 52, 48, 48, 45, 49, 51, 45, 52, 48]
     = Inl InvalidCalendarDate \<and>
   JALALI_OK (Jdatetime (\<lambda>g. None)
      (\<lambda>jy jm jd. if structurally_jalali jy jm jd
         then Some \<lparr>year = 2000, month = 1, day = 1\<rparr> else None)) \<and>
   jalali_birthdate
       \<lparr>decimal = no_other_digits, lower_other = \<lambda>s. s,
        jalali = Jdatetime (\<lambda>g. None)
          (\<lambda>jy jm jd. if structurally_jalali jy jm jd
             then Some \<lparr>year = 2000, month = 1, day = 1\<rparr> else None),
        clock = None, network = []\<rparr>
       [49, 52, 48, 48, 45, 49, 51, 45, 52, 48]
     = Inl InvalidCalendarDate"
proof -
  define b where "b = Jdatetime (\<lambda>g. None)
      (\<lambda>jy jm jd. if structurally_jalali jy jm jd
         then Some \<lparr>year = 2000, month = 1, day = 1\<rparr> else None)"
  define w where "w = \<lparr>decimal = no_other_digits, lower_other = \<lambda>s. s, jalali = b,
      clock = None, network = []\<rparr>"
  have m: "fullmatch no_other_digits date_pattern
             (normalize_sep [49, 52, 48, 48, 45, 49, 51, 45, 52, 48])"
    by (simp add: parse_eval no_other_digits_def)
  have p: "map_int no_other_digits
             (split 45 (normalize_sep [49, 52, 48, 48, 45, 49, 51, 45, 52, 48]))
             = Inr [1400, 13, 40]"
    by (simp add: parse_eval no_other_digits_def)
  have v: "\<not> structurally_jalali 1400 13 40"
    by (simp add: structurally_jalali_def jalali_month_days_def)
  have d: "decimal w = no_other_digits" and j: "jalali w = b"
    by (simp_all add: w_def)
  have k: "JALALI_OK b"
    by (simp add: JALALI_OK_def b_def)
  have c: "jtuple_to_gdate b 1400 13 40 = Inl InvalidCalendarDate"
    using v by (simp add: jtuple_to_gdate_def b_def raised_def)
  have "parse_jalali_tuple no_other_digits [49, 52, 48, 48, 45, 49, 51, 45, 52, 48]
          = Inr [1400, 13, 40] \<and>
        parse_gregorian no_other_digits [49, 52, 48, 48, 45, 49, 51, 45, 52, 48]
          = Inl InvalidCalendarDate \<and>
        jalali_birthdate w [49, 52, 48, 48, 45, 49, 51, 45, 52, 48] = Inl InvalidCalendarDate"
    using m d
      parse_jalali_tuple_defers_validation[of no_other_digits
        "[49, 52, 48, 48, 45, 49, 51, 45, 52, 48]" w]
    by (simp add: p j c unpack3_def date_eval)
  then show ?thesis
    using m v k unfolding b_def w_def by simp
qed

section \<open>Claims about the missing backend\<close>

text \<open>
  C9. Without a backend the two wrappers raise their own error, \<open>CapabilityUnavailable\<close>,
  which no other function raises. Each of the three Jalali flows tests \<^verbatim>\<open>JALALI_OK\<close> first:
  without a backend it prints the notice and returns, with no prompt and no line read. No
  call of a wrapper is made without that test: in no run of any of the four flows,
  whatever the backend and whatever is typed, is the error of a missing backend printed or
  raised.
\<close>

theorem capability_unavailable:
  "gdate_to_jtuple NoBackend gd = Inl CapabilityUnavailable \<and>
   jtuple_to_gdate NoBackend jy jm jd = Inl CapabilityUnavailable \<and>
   (jalali w = NoBackend \<longrightarrow>
      calculate_age_jalali_flow w typed = ([Message NEED_JALALI], typed, Returned) \<and>
      convert_jalali_to_gregorian_flow w typed = ([Message NEED_JALALI], typed, Returned) \<and>
      convert_gregorian_to_jalali_flow w typed = ([Message NEED_JALALI], typed, Returned)) \<and>
   \<not> unavailable_raised (calculate_age_gregorian_flow w typed) \<and>
   \<not> unavailable_raised (calculate_age_jalali_flow w typed) \<and>
   \<not> unavailable_raised (convert_jalali_to_gregorian_flow w typed) \<and>
   \<not> unavailable_raised (convert_gregorian_to_jalali_flow w typed)"
proof (intro conjI impI)
  show "gdate_to_jtuple NoBackend gd = Inl CapabilityUnavailable"
    by (simp add: gdate_to_jtuple_def)
next
  show "jtuple_to_gdate NoBackend jy jm jd = Inl CapabilityUnavailable"
    by (simp add: jtuple_to_gdate_def)
next
  assume "jalali w = NoBackend"
  then show "calculate_age_jalali_flow w typed = ([Message NEED_JALALI], typed, Returned)"
    by (simp add: calculate_age_jalali_flow_def JALALI_OK_def)
next
  assume "jalali w = NoBackend"
  then show "convert_jalali_to_gregorian_flow w typed = ([Message NEED_JALALI], typed, Returned)"
    by (simp add: convert_jalali_to_gregorian_flow_def JALALI_OK_def)
next
  assume "jalali w = NoBackend"
  then show "convert_gregorian_to_jalali_flow w typed = ([Message NEED_JALALI], typed, Returned)"
    by (simp add: convert_gregorian_to_jalali_flow_def JALALI_OK_def)
next
  show "\<not> unavailable_raised (calculate_age_gregorian_flow w typed)"
    unfolding calculate_age_gregorian_flow_def
    by (rule age_flow_available) (use parse_gregorian_error in blast)
next
  show "\<not> unavailable_raised (calculate_age_jalali_flow w typed)"
  proof (cases "JALALI_OK (jalali w)")
    case True
    then have "jalali_birthdate w raw \<noteq> Inl CapabilityUnavailable" for raw
      by (rule jalali_birthdate_available)
    then have "\<not> unavailable_raised (age_flow w (jalali_birthdate w) typed)"
      by (rule age_flow_available)
    then show ?thesis using True by (simp add: calculate_age_jalali_flow_def)
  next
    case False
    then show ?thesis
      by (simp add: calculate_age_jalali_flow_def unavailable_raised_triple)
  qed
next
  show "\<not> unavailable_raised (convert_jalali_to_gregorian_flow w typed)"
  proof (cases "JALALI_OK (jalali w)")
    case True
    then have "\<not> unavailable_raised (convert_loop w (jalali_to_gregorian_card w) typed)"
      by (intro convert_loop_available jalali_to_gregorian_card_available
          jalali_to_gregorian_card_lines)
    then show ?thesis using True by (simp add: convert_jalali_to_gregorian_flow_def)
  next
    case False
    then show ?thesis
      by (simp add: convert_jalali_to_gregorian_flow_def unavailable_raised_triple)
  qed
next
  show "\<not> unavailable_raised (convert_gregorian_to_jalali_flow w typed)"
  proof (cases "JALALI_OK (jalali w)")
    case True
    then have "\<not> unavailable_raised (convert_loop w (gregorian_to_jalali_card w) typed)"
      by (intro convert_loop_available gregorian_to_jalali_card_available
          gregorian_to_jalali_card_lines)
    then show ?thesis using True by (simp add: convert_gregorian_to_jalali_flow_def)
  next
    case False
    then show ?thesis
      by (simp add: convert_gregorian_to_jalali_flow_def unavailable_raised_triple)
  qed
qed

text \<open>
  The witness is a world without a backend and one typed line, \<^verbatim>\<open>1370-04-24\<close>, which is
  left unread.
\<close>

theorem capability_unavailable_witness:
  "jalali \<lparr>decimal = \<lambda>c. None, lower_other = \<lambda>s. s, jalali = NoBackend,
           clock = Some \<lparr>year = 2025, month = 10, day = 18\<rparr>, network = []\<rparr> = NoBackend \<and>
   calculate_age_jalali_flow
       \<lparr>decimal = \<lambda>c. None, lower_other = \<lambda>s. s, jalali = NoBackend,
        clock = Some \<lparr>year = 2025, month = 10, day = 18\<rparr>, network = []\<rparr>
       [[49, 51, 55, 48, 45, 48, 52, 45, 50, 52]]
     = ([Message NEED_JALALI], [[49, 51, 55, 48, 45, 48, 52, 45, 50, 52]], Returned) \<and>
   convert_jalali_to_gregorian_flow
       \<lparr>decimal = \<lambda>c. None, lower_other = \<lambda>s. s, jalali = NoBackend,
        clock = Some \<lparr>year = 2025, month = 10, day = 18\<rparr>, network = []\<rparr>
       [[49, 51, 55, 48, 45, 48, 52, 45, 50, 52]]
     = ([Message NEED_JALALI], [[49, 51, 55, 48, 45, 48, 52, 45, 50, 52]], Returned) \<and>
   convert_gregorian_to_jalali_flow
       \<lparr>decimal = \<lambda>c. None, lower_other = \<lambda>s. s, jalali = NoBackend,
        clock = Some \<lparr>year = 2025, month = 10, day = 18\<rparr>, network = []\<rparr>
       [[49, 51, 55, 48, 45, 48, 52, 45, 50, 52]]
     = ([Message NEED_JALALI], [[49, 51, 55, 48, 45, 48, 52, 45, 50, 52]], Returned)"
proof -
  define w where "w = \<lparr>decimal = \<lambda>c. None, lower_other = \<lambda>s. s, jalali = NoBackend,
      clock = Some \<lparr>year = 2025, month = 10, day = 18\<rparr>, network = []\<rparr>"
  have n: "jalali w = NoBackend" by (simp add: w_def)
  show ?thesis
    using n capability_unavailable[of _ _ _ _ w "[[49, 51, 55, 48, 45, 48, 52, 45, 50, 52]]"]
    unfolding w_def by simp
qed

end
